theory Spec2Isabelle
  imports Complex_Main "HOL-Library.Multiset" "HOL-Library.Char_ord"
    "HOL-Library.List_Lexorder" "HOL-Library.Product_Lexorder"
begin

section \<open>The data frame of \<^verbatim>\<open>Dash.py\<close>\<close>

text \<open>
  \<^verbatim>\<open>load_data\<close> hands \<^verbatim>\<open>process_novice\<close> a frame with the columns Name, Sex, Age, Dots
  and Date. Rows whose Name or Dots cell is empty are removed by \<^verbatim>\<open>load_data\<close>; after that
  \<^verbatim>\<open>pd.to_numeric(..., errors="coerce")\<close> turns an unreadable Dots or Age into NaN and
  \<^verbatim>\<open>pd.to_datetime(..., errors="coerce")\<close> turns an unreadable Date into NaT. So Name is
  always a string, and each of the other four cells is a value or missing (\<open>None\<close>).

  Numbers: Age and Dots are float64 in pandas. They are modelled as exact rationals, which
  contain every finite float64; the rounding of a float sum is outside the model. A Date is
  a datetime64 value, an integer count of nanoseconds. A string is a list of code points
  below 256, one \<open>char\<close> each.
\<close>

record row =
  Name :: string
  Sex :: "string option"
  Age :: "rat option"
  Dots :: "rat option"
  Date :: "int option"

text \<open>The frame after \<^verbatim>\<open>df["Division"] = ...\<close>: one more column.\<close>

record drow = row +
  Division :: "string option"

text \<open>A row of \<^verbatim>\<open>agg\<close>: the three grouping columns and the summed Dots.\<close>

record agg_row =
  agg_Name :: string
  agg_Sex :: string
  agg_Division :: string
  agg_Dots :: rat

text \<open>
  The returned frame: \<^verbatim>\<open>agg\<close> with the Rank column. pandas stores a rank as a float64
  whose value is a whole number; the model keeps the number.
\<close>

record ranked_row = agg_row +
  Rank :: nat

section \<open>Python string operations used by \<^verbatim>\<open>assign_division\<close>\<close>

text \<open>\<^verbatim>\<open>str(x)\<close> of a cell: the string itself, and \<^verbatim>\<open>"nan"\<close> for a missing cell.\<close>

definition str_cell :: "string option \<Rightarrow> string" where
  "str_cell c = (case c of None \<Rightarrow> ''nan'' | Some s \<Rightarrow> s)"

text \<open>
  \<^verbatim>\<open>str.isspace\<close> on the code points below 256: tab, line feed, vertical tab, form feed,
  carriage return, the four separators 0x1C to 0x1F, space, 0x85 and 0xA0.
\<close>

definition isspace :: "char \<Rightarrow> bool" where
  "isspace c \<longleftrightarrow> c \<in> set [CHR 0x09, CHR 0x0A, CHR 0x0B, CHR 0x0C, CHR 0x0D,
     CHR 0x1C, CHR 0x1D, CHR 0x1E, CHR 0x1F, CHR 0x20, CHR 0x85, CHR 0xA0]"

definition strip :: "string \<Rightarrow> string" where
  "strip s = rev (dropWhile isspace (rev (dropWhile isspace s)))"

text \<open>
  \<^verbatim>\<open>str.upper\<close>, on the ASCII letters. The code points from 128 on are left as they are:
  Python maps none of them to \<^verbatim>\<open>M\<close>, and \<^verbatim>\<open>startswith("M")\<close> is all that reads the
  result.
\<close>

definition upper_char :: "char \<Rightarrow> char" where
  "upper_char c =
     (case map_of (zip ''abcdefghijklmnopqrstuvwxyz'' ''ABCDEFGHIJKLMNOPQRSTUVWXYZ'') c of
        None \<Rightarrow> c | Some u \<Rightarrow> u)"

definition upper :: "string \<Rightarrow> string" where
  "upper s = map upper_char s"

definition startswith :: "string \<Rightarrow> string \<Rightarrow> bool" where
  "startswith s p \<longleftrightarrow> take (length p) s = p"

section \<open>\<^verbatim>\<open>assign_division\<close>\<close>

definition assign_division :: "'a row_scheme \<Rightarrow> string option" where
  "assign_division r =
     (case Age r of
        None \<Rightarrow> None
      | Some age \<Rightarrow>
          (let div_band = (if age < 24 then ''Junior''
                           else if age < 40 then ''Open''
                           else ''Masters'');
               gender = (if startswith (upper (strip (str_cell (Sex r)))) ''M''
                         then ''Men'' else ''Women'')
           in Some (div_band @ '' '' @ gender)))"

section \<open>Sorting a frame by one column\<close>

text \<open>
  \<^verbatim>\<open>DataFrame.sort_values\<close> computes an index array with numpy's \<^verbatim>\<open>argsort\<close> over the
  key column and takes the rows in that order. The source passes no \<^verbatim>\<open>kind\<close>, so the sort is
  pandas' default, \<^verbatim>\<open>quicksort\<close>, which pandas documents as not stable: the order it gives
  to rows with equal keys is not specified. The model therefore takes \<^verbatim>\<open>argsort\<close> as a
  parameter, and \<open>is_argsort\<close> states all that is known of it: the result is a permutation
  of the positions that puts the keys in ascending order.
\<close>

definition is_argsort :: "('k::linorder list \<Rightarrow> nat list) \<Rightarrow> bool" where
  "is_argsort argsort \<longleftrightarrow>
     (\<forall>ks. mset (argsort ks) = mset [0..<length ks] \<and> sorted (map (nth ks) (argsort ks)))"

text \<open>
  \<^verbatim>\<open>df.sort_values("Date")\<close>: ascending, with \<^verbatim>\<open>na_position="last"\<close> by default. pandas
  sorts the rows that have a date and appends the rows without one, in the order they had.
\<close>

definition sort_values_Date ::
    "(int list \<Rightarrow> nat list) \<Rightarrow> 'a row_scheme list \<Rightarrow> 'a row_scheme list" where
  "sort_values_Date argsort df =
     (let dated = filter (\<lambda>r. Date r \<noteq> None) df;
          undated = filter (\<lambda>r. Date r = None) df
      in map (nth dated) (argsort (map (\<lambda>r. the (Date r)) dated)) @ undated)"

text \<open>
  \<^verbatim>\<open>.sort_values("Dots", ascending=False)\<close>: pandas reverses the rows, sorts ascending
  and reverses the result. No Dots of \<^verbatim>\<open>agg\<close> is missing (a sum that skips NaN is a number).
\<close>

definition sort_values_Dots_desc ::
    "(rat list \<Rightarrow> nat list) \<Rightarrow> 'a agg_row_scheme list \<Rightarrow> 'a agg_row_scheme list" where
  "sort_values_Dots_desc argsort agg =
     (let r = rev agg in rev (map (nth r) (argsort (map agg_Dots r))))"

text \<open>
  A sort that meets \<open>is_argsort\<close>, to run the pipeline on concrete frames: it keeps rows
  with equal keys in the order they had. No witness or counterexample below states
  anything that depends on the order of rows with equal keys.
\<close>

definition stable_argsort :: "'k::linorder list \<Rightarrow> nat list" where
  "stable_argsort ks = map snd (sort_key fst (zip ks [0..<length ks]))"

section \<open>\<^verbatim>\<open>process_novice\<close>\<close>

text \<open>
  \<^verbatim>\<open>df["Division"] = df.apply(assign_division, axis=1)\<close>: the function is applied to
  each row. On a frame without rows there is no row to apply it to, and what \<^verbatim>\<open>apply\<close>
  returns then depends on the pandas version: current versions try the function on a row of
  NaN, see that it returns no Series, and return an empty column, which is what \<open>map\<close>
  gives here; earlier versions returned a copy of the frame, which cannot be assigned to
  one column. The claim about an empty input (C4) is therefore settled on frames that
  have rows.
\<close>

definition add_Division :: "row list \<Rightarrow> drow list" where
  "add_Division df =
     map (\<lambda>r. \<lparr>Name = Name r, Sex = Sex r, Age = Age r, Dots = Dots r, Date = Date r,
               Division = assign_division r\<rparr>) df"

text \<open>
  \<^verbatim>\<open>df.groupby("Name").cumcount()\<close>: for each row, the number of earlier rows of the frame
  with the same Name. \<open>seen\<close> holds the names of the rows already passed.
\<close>

fun cumcount :: "string list \<Rightarrow> string list \<Rightarrow> nat list" where
  "cumcount seen [] = []"
| "cumcount seen (n # ns) = count_list seen n # cumcount (n # seen) ns"

text \<open>
  Lines 46 to 51, the appearance limiter: sort by Date, number each Name's rows from 1 in
  that order, keep the rows numbered at most 3. The Appearances column stays in the
  source's frame; no later line reads it, and the model drops it after the filter.
\<close>

definition limit_appearances ::
    "(int list \<Rightarrow> nat list) \<Rightarrow> 'a row_scheme list \<Rightarrow> 'a row_scheme list" where
  "limit_appearances argsort df =
     (let df = sort_values_Date argsort df;
          Appearances = map (\<lambda>c. c + 1) (cumcount [] (map Name df))
      in map fst (filter (\<lambda>(r, a). a \<le> 3) (zip df Appearances)))"

text \<open>
  \<^verbatim>\<open>df.groupby(["Name", "Sex", "Division"], as_index=False)["Dots"].sum()\<close>. With the
  defaults \<^verbatim>\<open>dropna=True\<close> and \<^verbatim>\<open>sort=True\<close>, a row with a missing Sex or Division is in
  no group, and the groups come out in ascending order of the key. The sum skips a missing
  Dots.
\<close>

definition group_key :: "'a drow_scheme \<Rightarrow> (string \<times> string \<times> string) option" where
  "group_key r =
     (case Sex r of
        None \<Rightarrow> None
      | Some s \<Rightarrow> (case Division r of None \<Rightarrow> None | Some d \<Rightarrow> Some (Name r, s, d)))"

definition dots_or_zero :: "'a row_scheme \<Rightarrow> rat" where
  "dots_or_zero r = (case Dots r of None \<Rightarrow> 0 | Some d \<Rightarrow> d)"

definition groupby_Dots_sum :: "'a drow_scheme list \<Rightarrow> agg_row list" where
  "groupby_Dots_sum df =
     map (\<lambda>k. \<lparr>agg_Name = fst k, agg_Sex = fst (snd k), agg_Division = snd (snd k),
               agg_Dots = sum_list (map dots_or_zero (filter (\<lambda>r. group_key r = Some k) df))\<rparr>)
         (sort (remdups (List.map_filter group_key df)))"

text \<open>
  \<^verbatim>\<open>rank(ascending=False, method="min")\<close> of one value within its group: the first
  position, counted from 1, that the value takes when the group's values are put in
  descending order.
\<close>

definition rank_min_desc :: "rat list \<Rightarrow> rat \<Rightarrow> nat" where
  "rank_min_desc vals v = Suc (length (takeWhile (\<lambda>w. w \<noteq> v) (rev (sort vals))))"

text \<open>\<^verbatim>\<open>agg["Rank"] = agg.groupby("Division")["Dots"].rank(ascending=False, method="min")\<close>\<close>

definition add_Rank :: "agg_row list \<Rightarrow> ranked_row list" where
  "add_Rank agg =
     map (\<lambda>a. \<lparr>agg_Name = agg_Name a, agg_Sex = agg_Sex a, agg_Division = agg_Division a,
               agg_Dots = agg_Dots a,
               Rank = rank_min_desc
                        (map agg_Dots (filter (\<lambda>b. agg_Division b = agg_Division a) agg))
                        (agg_Dots a)\<rparr>) agg"

definition process_novice ::
    "(int list \<Rightarrow> nat list) \<Rightarrow> (rat list \<Rightarrow> nat list) \<Rightarrow> row list \<Rightarrow> ranked_row list" where
  "process_novice argsort_Date argsort_Dots df =
     (let df = add_Division df;
          df = limit_appearances argsort_Date df;
          agg = sort_values_Dots_desc argsort_Dots (groupby_Dots_sum df)
      in add_Rank agg)"

section \<open>Notions used in the statements and proofs\<close>

text \<open>
  The order of \<^verbatim>\<open>sort_values("Date")\<close> on the cells of the Date column: by date, a missing
  date after every date.
\<close>

definition date_le :: "int option \<Rightarrow> int option \<Rightarrow> bool" where
  "date_le a b =
     (case b of
        None \<Rightarrow> True
      | Some y \<Rightarrow> (case a of None \<Rightarrow> False | Some x \<Rightarrow> x \<le> y))"

text \<open>The grouping key of a row of \<^verbatim>\<open>agg\<close>.\<close>

definition key_of :: "'a agg_row_scheme \<Rightarrow> string \<times> string \<times> string" where
  "key_of a = (agg_Name a, agg_Sex a, agg_Division a)"

text \<open>
  The two halves of \<open>sort_values_Date\<close> and of \<open>limit_appearances\<close>, named so that lemmas
  can speak of them: the sorted rows that have a date, and the numbering and filter of
  lines 50 and 51 started with the names \<open>seen\<close> already counted.
\<close>

definition dated_part ::
    "(int list \<Rightarrow> nat list) \<Rightarrow> 'a row_scheme list \<Rightarrow> 'a row_scheme list" where
  "dated_part argsort df =
     (let dated = filter (\<lambda>r. Date r \<noteq> None) df
      in map (nth dated) (argsort (map (\<lambda>r. the (Date r)) dated)))"

definition keep_rows :: "string list \<Rightarrow> 'a row_scheme list \<Rightarrow> 'a row_scheme list" where
  "keep_rows seen df =
     (let Appearances = map (\<lambda>c. c + 1) (cumcount seen (map Name df))
      in map fst (filter (\<lambda>(r, a). a \<le> 3) (zip df Appearances)))"

section \<open>The stage order of the spec\<close>

text \<open>
  Following the spec's words, section 4.5: \<^verbatim>\<open>classify, drop unclassifiable, limit
  appearances per participant, aggregate, rank\<close>. This is the source's pipeline with one stage
  added, the removal of the rows without a division before the limiter; it is here to be
  compared with \<open>process_novice\<close>.
\<close>

definition process_novice_drop_first ::
    "(int list \<Rightarrow> nat list) \<Rightarrow> (rat list \<Rightarrow> nat list) \<Rightarrow> row list \<Rightarrow> ranked_row list" where
  "process_novice_drop_first argsort_Date argsort_Dots df =
     (let df = add_Division df;
          df = filter (\<lambda>r. Division r \<noteq> None) df;
          df = limit_appearances argsort_Date df;
          agg = sort_values_Dots_desc argsort_Dots (groupby_Dots_sum df)
      in add_Rank agg)"

section \<open>Example frames\<close>

text \<open>The first scenario of the spec: participant A, 22, male, with the scores 100, 200, 150
  and 300 on four successive dates, the rows not in date order.\<close>

definition frame_scenario :: "row list" where
  "frame_scenario =
     [\<lparr>Name = ''A'', Sex = Some ''M'', Age = Some 22, Dots = Some 300, Date = Some 4\<rparr>,
      \<lparr>Name = ''A'', Sex = Some ''M'', Age = Some 22, Dots = Some 100, Date = Some 1\<rparr>,
      \<lparr>Name = ''A'', Sex = Some ''M'', Age = Some 22, Dots = Some 150, Date = Some 3\<rparr>,
      \<lparr>Name = ''A'', Sex = Some ''M'', Age = Some 22, Dots = Some 200, Date = Some 2\<rparr>]"

text \<open>The second scenario of the spec: A and B tie at 450 in Open Men, C has 500.\<close>

definition frame_ties :: "row list" where
  "frame_ties =
     [\<lparr>Name = ''A'', Sex = Some ''M'', Age = Some 30, Dots = Some 450, Date = Some 1\<rparr>,
      \<lparr>Name = ''B'', Sex = Some ''M'', Age = Some 30, Dots = Some 450, Date = Some 2\<rparr>,
      \<lparr>Name = ''C'', Sex = Some ''M'', Age = Some 30, Dots = Some 500, Date = Some 3\<rparr>]"

text \<open>One participant with four appearances; the earliest has no age.\<close>

definition frame_missing_age :: "row list" where
  "frame_missing_age =
     [\<lparr>Name = ''P'', Sex = Some ''M'', Age = None, Dots = Some 500, Date = Some 1\<rparr>,
      \<lparr>Name = ''P'', Sex = Some ''M'', Age = Some 30, Dots = Some 100, Date = Some 2\<rparr>,
      \<lparr>Name = ''P'', Sex = Some ''M'', Age = Some 30, Dots = Some 200, Date = Some 3\<rparr>,
      \<lparr>Name = ''P'', Sex = Some ''M'', Age = Some 30, Dots = Some 300, Date = Some 4\<rparr>]"

text \<open>One participant with four appearances, two of them without a date.\<close>

definition frame_undated :: "row list" where
  "frame_undated =
     [\<lparr>Name = ''Q'', Sex = Some ''F'', Age = Some 45, Dots = Some 1000, Date = None\<rparr>,
      \<lparr>Name = ''Q'', Sex = Some ''F'', Age = Some 45, Dots = Some 20, Date = Some 2\<rparr>,
      \<lparr>Name = ''Q'', Sex = Some ''F'', Age = Some 45, Dots = Some 100, Date = None\<rparr>,
      \<lparr>Name = ''Q'', Sex = Some ''F'', Age = Some 45, Dots = Some 10, Date = Some 1\<rparr>]"

text \<open>One name whose age crosses from Junior to Open between the first appearance and the
  second.\<close>

definition frame_two_divisions :: "row list" where
  "frame_two_divisions =
     [\<lparr>Name = ''R'', Sex = Some ''M'', Age = Some 23, Dots = Some 100, Date = Some 1\<rparr>,
      \<lparr>Name = ''R'', Sex = Some ''M'', Age = Some 24, Dots = Some 200, Date = Some 2\<rparr>,
      \<lparr>Name = ''R'', Sex = Some ''M'', Age = Some 24, Dots = Some 300, Date = Some 3\<rparr>,
      \<lparr>Name = ''R'', Sex = Some ''M'', Age = Some 24, Dots = Some 400, Date = Some 4\<rparr>]"

text \<open>Two records, neither with an age.\<close>

definition frame_no_age :: "row list" where
  "frame_no_age =
     [\<lparr>Name = ''S'', Sex = Some ''F'', Age = None, Dots = Some 250, Date = Some 1\<rparr>,
      \<lparr>Name = ''T'', Sex = Some ''M'', Age = None, Dots = Some 300, Date = Some 2\<rparr>]"

text \<open>One participant with two appearances, both with an age and a score; the earlier has
  no Sex.\<close>

definition frame_missing_sex :: "row list" where
  "frame_missing_sex =
     [\<lparr>Name = ''U'', Sex = None, Age = Some 30, Dots = Some 100, Date = Some 1\<rparr>,
      \<lparr>Name = ''U'', Sex = Some ''M'', Age = Some 30, Dots = Some 200, Date = Some 2\<rparr>]"

section \<open>Lemmas: sorting\<close>

lemma argsort_set: "is_argsort a \<Longrightarrow> set (a ks) = {0..<length ks}"
proof -
  assume "is_argsort a"
  then have "mset (a ks) = mset [0..<length ks]" by (simp add: is_argsort_def)
  then have "set (a ks) = set [0..<length ks]" by (rule mset_eq_setD)
  then show ?thesis by simp
qed

lemma mset_take_argsort:
  assumes "is_argsort a"
  shows "mset (map (nth xs) (a (map key xs))) = mset xs"
proof -
  have "mset (a (map key xs)) = mset [0..<length xs]"
    using assms by (simp add: is_argsort_def)
  then have "mset (map (nth xs) (a (map key xs))) = mset (map (nth xs) [0..<length xs])"
    by (metis mset_map)
  then show ?thesis by (simp add: map_nth)
qed

lemma key_take_argsort:
  assumes "is_argsort a"
  shows "map key (map (nth xs) (a (map key xs))) = map (nth (map key xs)) (a (map key xs))"
  using argsort_set [OF assms, of "map key xs"] by auto

lemma sorted_take_argsort:
  assumes "is_argsort a"
  shows "sorted (map key (map (nth xs) (a (map key xs))))"
  using assms by (simp only: key_take_argsort [OF assms]) (simp add: is_argsort_def)

lemma map_take_argsort:
  assumes "is_argsort a" and "length ks = length xs"
  shows "map f (map (nth xs) (a ks)) = map (nth (map f xs)) (a ks)"
  using argsort_set [OF assms(1), of ks] assms(2) by auto

lemma zip_upt_nth: "z \<in> set (zip ks [0..<length ks]) \<Longrightarrow> ks ! snd z = fst z"
  by (auto simp: in_set_zip)

lemma is_argsort_stable: "is_argsort stable_argsort"
  unfolding is_argsort_def
proof (intro allI conjI)
  fix ks :: "'a list"
  show "mset (stable_argsort ks) = mset [0..<length ks]"
    unfolding stable_argsort_def
    by (metis mset_map mset_sort map_snd_zip length_upt diff_zero)
  have "map (nth ks) (stable_argsort ks) = map fst (sort_key fst (zip ks [0..<length ks]))"
    unfolding stable_argsort_def by (auto dest: zip_upt_nth)
  then show "sorted (map (nth ks) (stable_argsort ks))" by simp
qed

lemma sort_values_Date_split:
  "sort_values_Date a df = dated_part a df @ filter (\<lambda>r. Date r = None) df"
  by (simp add: sort_values_Date_def dated_part_def Let_def)

lemma mset_dated_part:
  "is_argsort a \<Longrightarrow> mset (dated_part a df) = mset (filter (\<lambda>r. Date r \<noteq> None) df)"
  unfolding dated_part_def Let_def by (rule mset_take_argsort)

lemma dated_part_dated:
  assumes "is_argsort a" and "r \<in> set (dated_part a df)"
  shows "Date r \<noteq> None"
proof -
  have "r \<in># mset (dated_part a df)" using assms(2) by simp
  then have "r \<in># mset (filter (\<lambda>r. Date r \<noteq> None) df)"
    by (simp only: mset_dated_part [OF assms(1)])
  then show ?thesis by simp
qed

lemma sorted_dated_part:
  "is_argsort a \<Longrightarrow> sorted (map (\<lambda>r. the (Date r)) (dated_part a df))"
  unfolding dated_part_def Let_def by (rule sorted_take_argsort)

lemma mset_sort_values_Date:
  assumes "is_argsort a"
  shows "mset (sort_values_Date a df) = mset df"
proof -
  have "mset (sort_values_Date a df) =
        mset (filter (\<lambda>r. Date r \<noteq> None) df) + mset (filter (\<lambda>r. Date r = None) df)"
    by (simp add: sort_values_Date_split mset_dated_part [OF assms])
  also have "\<dots> = mset df"
    by (induction df) auto
  finally show ?thesis .
qed

lemma sorted_sort_values_Date:
  assumes "is_argsort a"
  shows "sorted_wrt (\<lambda>x y. date_le (Date x) (Date y)) (sort_values_Date a df)"
proof -
  let ?D = "dated_part a df"
  have "sorted_wrt (\<lambda>x y. the (Date x) \<le> the (Date y)) ?D"
    using sorted_dated_part [OF assms, of df] by (simp add: sorted_map)
  then have "sorted_wrt (\<lambda>x y. date_le (Date x) (Date y)) ?D"
  proof (rule sorted_wrt_mono_rel [rotated])
    fix x y assume "x \<in> set ?D" "y \<in> set ?D" "the (Date x) \<le> the (Date y)"
    then show "date_le (Date x) (Date y)"
      using dated_part_dated [OF assms, of x df] dated_part_dated [OF assms, of y df]
      by (auto simp: date_le_def split: option.splits)
  qed
  moreover have "sorted_wrt (\<lambda>x y. date_le (Date x) (Date y)) (filter (\<lambda>r. Date r = None) df)"
    by (rule sorted_wrt_mono_rel [of _ "\<lambda>x y. True"]) (auto simp: date_le_def)
  ultimately show ?thesis
    by (auto simp: sort_values_Date_split sorted_wrt_append date_le_def)
qed

lemma keep_rows_Nil: "keep_rows seen [] = []"
  by (simp add: keep_rows_def Let_def)

lemma keep_rows_Cons:
  "keep_rows seen (r # rs) =
     (if count_list seen (Name r) < 3 then r # keep_rows (Name r # seen) rs
      else keep_rows (Name r # seen) rs)"
  by (simp add: keep_rows_def Let_def)

lemma limit_appearances_keep:
  "limit_appearances a df = keep_rows [] (sort_values_Date a df)"
  by (simp add: limit_appearances_def keep_rows_def Let_def)

lemma filter_keep_rows:
  "filter (\<lambda>r. Name r = n) (keep_rows seen rs) =
     take (3 - count_list seen n) (filter (\<lambda>r. Name r = n) rs)"
proof (induction rs arbitrary: seen)
  case Nil
  show ?case by (simp add: keep_rows_Nil)
next
  case (Cons r rs)
  show ?case
  proof (cases "Name r = n")
    case True
    show ?thesis
    proof (cases "count_list seen n < 3")
      case lt: True
      then obtain k where k: "3 - count_list seen n = Suc k" "3 - Suc (count_list seen n) = k"
        by (cases "3 - count_list seen n") auto
      show ?thesis using True lt k by (simp add: keep_rows_Cons Cons.IH)
    next
      case False
      then show ?thesis using True by (simp add: keep_rows_Cons Cons.IH)
    qed
  next
    case False
    then show ?thesis by (simp add: keep_rows_Cons Cons.IH)
  qed
qed

lemma filter_limit_appearances:
  "filter (\<lambda>r. Name r = n) (limit_appearances a df) =
     take 3 (filter (\<lambda>r. Name r = n) (sort_values_Date a df))"
  by (simp add: limit_appearances_keep filter_keep_rows)

lemma keep_rows_all:
  "(\<And>n. count_list seen n + length (filter (\<lambda>r. Name r = n) rs) \<le> 3) \<Longrightarrow> keep_rows seen rs = rs"
proof (induction rs arbitrary: seen)
  case Nil
  show ?case by (simp add: keep_rows_Nil)
next
  case (Cons r rs)
  have "count_list seen (Name r) < 3" using Cons.prems [of "Name r"] by simp
  moreover have "keep_rows (Name r # seen) rs = rs"
  proof (rule Cons.IH)
    fix n show "count_list (Name r # seen) n + length (filter (\<lambda>r. Name r = n) rs) \<le> 3"
      using Cons.prems [of n] by auto
  qed
  ultimately show ?case by (simp add: keep_rows_Cons)
qed

lemma set_keep_rows: "set (keep_rows seen rs) \<subseteq> set rs"
  by (induction rs arbitrary: seen) (auto simp: keep_rows_Nil keep_rows_Cons)

section \<open>Lemmas: aggregation and ranking\<close>

lemma group_key_Some:
  "group_key r = Some k \<longleftrightarrow> Sex r = Some (fst (snd k)) \<and> Division r = Some (snd (snd k)) \<and> Name r = fst k"
  by (cases k) (auto simp: group_key_def split: option.splits)

lemma group_key_None: "group_key r = None \<longleftrightarrow> Sex r = None \<or> Division r = None"
  by (auto simp: group_key_def split: option.splits)

lemma set_map_filter_group_key:
  "set (List.map_filter group_key df) = {k. \<exists>r\<in>set df. group_key r = Some k}"
  by (force simp: List.map_filter_def image_iff)

lemma key_of_groupby:
  "map key_of (groupby_Dots_sum df) = sort (remdups (List.map_filter group_key df))"
  by (simp add: groupby_Dots_sum_def key_of_def comp_def)

lemma distinct_keys_groupby: "distinct (map key_of (groupby_Dots_sum df))"
  by (simp add: key_of_groupby)

lemma sorted_keys_groupby: "sorted (map key_of (groupby_Dots_sum df))"
  by (simp add: key_of_groupby)

lemma set_keys_groupby:
  "set (map key_of (groupby_Dots_sum df)) = {k. \<exists>r\<in>set df. group_key r = Some k}"
  by (simp only: key_of_groupby set_sort set_remdups set_map_filter_group_key)

lemma Dots_groupby:
  "a \<in> set (groupby_Dots_sum df) \<Longrightarrow>
   agg_Dots a = sum_list (map dots_or_zero (filter (\<lambda>r. group_key r = Some (key_of a)) df))"
  by (auto simp: groupby_Dots_sum_def key_of_def)

lemma groupby_drop_unclassified:
  "groupby_Dots_sum (filter (\<lambda>r. Division r \<noteq> None) df) = groupby_Dots_sum df"
proof -
  have 1: "List.map_filter group_key (filter (\<lambda>r. Division r \<noteq> None) df) = List.map_filter group_key df"
    by (induction df) (auto simp: List.map_filter_def group_key_def split: option.splits)
  have 2: "filter (\<lambda>r. group_key r = Some k) (filter (\<lambda>r. Division r \<noteq> None) df)
         = filter (\<lambda>r. group_key r = Some k) df" for k
    by (induction df) (auto simp: group_key_def split: option.splits)
  show ?thesis by (simp only: groupby_Dots_sum_def 1 2)
qed

lemma mset_sort_values_Dots_desc:
  "is_argsort a \<Longrightarrow> mset (sort_values_Dots_desc a agg) = mset agg"
  using mset_take_argsort [of a "rev agg" agg_Dots]
  by (simp add: sort_values_Dots_desc_def Let_def del: mset_map)

lemma set_sort_values_Dots_desc:
  "is_argsort a \<Longrightarrow> set (sort_values_Dots_desc a agg) = set agg"
  by (rule mset_eq_setD) (rule mset_sort_values_Dots_desc)

lemma sorted_sort_values_Dots_desc:
  "is_argsort a \<Longrightarrow> sorted (rev (map agg_Dots (sort_values_Dots_desc a agg)))"
  using sorted_take_argsort [of a agg_Dots "rev agg"]
  by (simp add: sort_values_Dots_desc_def Let_def rev_map)

lemma takeWhile_desc:
  "sorted_wrt (\<lambda>a b. b \<le> a) ds \<Longrightarrow> v \<in> set ds \<Longrightarrow>
   takeWhile (\<lambda>w. w \<noteq> v) ds = filter (\<lambda>w. v < w) (ds :: rat list)"
proof (induction ds)
  case Nil
  then show ?case by simp
next
  case (Cons d ds)
  show ?case
  proof (cases "d = v")
    case True
    have "\<forall>w\<in>set ds. \<not> v < w" using Cons.prems(1) True by auto
    then have "filter (\<lambda>w. v < w) ds = []" by (simp add: filter_empty_conv)
    then show ?thesis using True by simp
  next
    case False
    then have "v \<in> set ds" using Cons.prems(2) by simp
    then have "v < d" using Cons.prems(1) False by auto
    then show ?thesis using False Cons.IH Cons.prems(1) \<open>v \<in> set ds\<close> by simp
  qed
qed

lemma rank_min_desc_count:
  assumes "v \<in> set vals"
  shows "rank_min_desc vals v = Suc (length (filter (\<lambda>w. v < w) vals))"
proof -
  let ?ds = "rev (sort vals)"
  have "sorted_wrt (\<lambda>a b. b \<le> a) ?ds"
    by (simp add: sorted_wrt_rev)
  moreover have "v \<in> set ?ds" using assms by simp
  ultimately have "takeWhile (\<lambda>w. w \<noteq> v) ?ds = filter (\<lambda>w. v < w) ?ds"
    by (rule takeWhile_desc)
  moreover have "length (filter (\<lambda>w. v < w) ?ds) = length (filter (\<lambda>w. v < w) vals)"
  proof -
    have "mset (filter (\<lambda>w. v < w) ?ds) = mset (filter (\<lambda>w. v < w) vals)"
      by simp
    then show ?thesis by (rule mset_eq_length)
  qed
  ultimately show ?thesis by (simp add: rank_min_desc_def)
qed

lemma length_filter_less:
  "(\<And>z. z \<in> set xs \<Longrightarrow> P z \<Longrightarrow> Q z) \<Longrightarrow> w \<in> set xs \<Longrightarrow> Q w \<Longrightarrow> \<not> P w \<Longrightarrow>
   length (filter P xs) < length (filter Q xs)"
proof (induction xs)
  case Nil
  then show ?case by simp
next
  case (Cons x xs)
  have le: "length (filter P xs) \<le> length (filter Q xs)"
  proof -
    have "filter P xs = filter P (filter Q xs)"
      using Cons.prems(1) by (auto intro: filter_cong)
    then show ?thesis by (metis length_filter_le)
  qed
  show ?case
  proof (cases "w = x")
    case True
    then show ?thesis using le Cons.prems(3,4) by simp
  next
    case False
    then have "length (filter P xs) < length (filter Q xs)"
      using Cons.IH Cons.prems by auto
    then show ?thesis using Cons.prems(1) [of x] by auto
  qed
qed

lemma add_Rank_fields:
  "x \<in> set (add_Rank agg) \<Longrightarrow>
   \<exists>a\<in>set agg. agg_Name x = agg_Name a \<and> agg_Sex x = agg_Sex a \<and>
     agg_Division x = agg_Division a \<and> agg_Dots x = agg_Dots a \<and>
     Rank x = rank_min_desc (map agg_Dots (filter (\<lambda>b. agg_Division b = agg_Division a) agg)) (agg_Dots a)"
  by (auto simp: add_Rank_def)

lemma key_of_add_Rank: "map key_of (add_Rank agg) = map key_of agg"
  by (simp add: add_Rank_def key_of_def)

lemma Dots_add_Rank: "map agg_Dots (add_Rank agg) = map agg_Dots agg"
  by (simp add: add_Rank_def)

lemma length_filter_add_Rank:
  "length (filter (\<lambda>z. agg_Division z = d \<and> v < agg_Dots z) (add_Rank agg)) =
   length (filter (\<lambda>b. agg_Division b = d \<and> v < agg_Dots b) agg)"
  by (simp add: add_Rank_def filter_map comp_def)

lemma Rank_add_Rank:
  assumes "x \<in> set (add_Rank agg)"
  shows "Rank x = Suc (length (filter (\<lambda>b. agg_Division b = agg_Division x \<and> agg_Dots x < agg_Dots b) agg))"
proof -
  obtain a where a: "a \<in> set agg" "agg_Division x = agg_Division a" "agg_Dots x = agg_Dots a"
    "Rank x = rank_min_desc (map agg_Dots (filter (\<lambda>b. agg_Division b = agg_Division a) agg)) (agg_Dots a)"
    using add_Rank_fields [OF assms] by blast
  have "agg_Dots a \<in> set (map agg_Dots (filter (\<lambda>b. agg_Division b = agg_Division a) agg))"
    using a(1) by auto
  then have "Rank x = Suc (length (filter (\<lambda>w. agg_Dots a < w)
      (map agg_Dots (filter (\<lambda>b. agg_Division b = agg_Division a) agg))))"
    by (simp only: a(4) rank_min_desc_count)
  then show ?thesis
    by (simp add: a(2,3) filter_map comp_def conj_commute)
qed

section \<open>Lemmas: the sex bucket\<close>

lemma upper_char_M: "upper_char c = CHR ''M'' \<longleftrightarrow> c = CHR ''m'' \<or> c = CHR ''M''"
  by (auto simp: upper_char_def split: if_splits)

lemma strip_Nil: "dropWhile isspace s = [] \<Longrightarrow> strip s = []"
  unfolding strip_def by (simp only: rev.simps dropWhile.simps)

lemma strip_Cons:
  assumes "dropWhile isspace s = c # t"
  shows "\<exists>t'. strip s = c # t'"
proof -
  have c: "\<not> isspace c" using assms by (metis hd_dropWhile list.sel(1) list.distinct(1))
  have "dropWhile isspace (rev t @ [c]) = dropWhile isspace (rev t) @ [c] \<or>
        dropWhile isspace (rev t @ [c]) = [c]"
    using c by (simp add: dropWhile_append)
  then have "rev (dropWhile isspace (rev (c # t))) = c # rev (dropWhile isspace (rev t)) \<or>
             rev (dropWhile isspace (rev (c # t))) = [c]"
    by auto
  then show ?thesis unfolding strip_def assms by blast
qed

lemma startswith_M:
  "startswith (upper (strip s)) ''M'' \<longleftrightarrow>
     (\<exists>c t. dropWhile isspace s = c # t \<and> (c = CHR ''m'' \<or> c = CHR ''M''))"
proof (cases "dropWhile isspace s")
  case Nil
  show ?thesis by (simp only: strip_Nil [OF Nil] Nil) (simp add: startswith_def upper_def)
next
  case (Cons c t)
  then obtain t' where "strip s = c # t'" using strip_Cons by blast
  then show ?thesis using Cons by (simp add: startswith_def upper_def upper_char_M)
qed

section \<open>Lemmas: the pipeline as a whole\<close>

lemma process_novice_unfold:
  "process_novice aD aS df =
     add_Rank (sort_values_Dots_desc aS (groupby_Dots_sum (limit_appearances aD (add_Division df))))"
  by (simp add: process_novice_def Let_def)

lemma keys_process_novice:
  assumes "is_argsort aS"
  shows "set (map key_of (process_novice aD aS df)) =
         {k. \<exists>r\<in>set (limit_appearances aD (add_Division df)). group_key r = Some k}"
proof -
  let ?K = "limit_appearances aD (add_Division df)"
  have "set (map key_of (process_novice aD aS df)) =
        set (map key_of (sort_values_Dots_desc aS (groupby_Dots_sum ?K)))"
    by (simp only: process_novice_unfold key_of_add_Rank)
  also have "\<dots> = key_of ` set (sort_values_Dots_desc aS (groupby_Dots_sum ?K))" by simp
  also have "\<dots> = key_of ` set (groupby_Dots_sum ?K)"
    by (simp only: set_sort_values_Dots_desc [OF assms])
  also have "\<dots> = set (map key_of (groupby_Dots_sum ?K))" by simp
  finally show ?thesis by (simp only: set_keys_groupby)
qed

lemma distinct_keys_process_novice:
  assumes "is_argsort aS"
  shows "distinct (map key_of (process_novice aD aS df))"
proof -
  let ?G = "groupby_Dots_sum (limit_appearances aD (add_Division df))"
  have "mset (map key_of (sort_values_Dots_desc aS ?G)) = mset (map key_of ?G)"
    using mset_sort_values_Dots_desc [OF assms, of ?G] by (metis mset_map)
  then have "distinct (map key_of (sort_values_Dots_desc aS ?G)) = distinct (map key_of ?G)"
    by (rule mset_eq_imp_distinct_iff)
  then show ?thesis
    by (simp only: process_novice_unfold key_of_add_Rank distinct_keys_groupby)
qed

lemma Dots_process_novice:
  assumes "is_argsort aS" and "x \<in> set (process_novice aD aS df)"
  shows "agg_Dots x = sum_list (map dots_or_zero
           (filter (\<lambda>r. group_key r = Some (key_of x)) (limit_appearances aD (add_Division df))))"
proof -
  let ?K = "limit_appearances aD (add_Division df)"
  have "x \<in> set (add_Rank (sort_values_Dots_desc aS (groupby_Dots_sum ?K)))"
    using assms(2) by (simp only: process_novice_unfold)
  then obtain a where a: "a \<in> set (sort_values_Dots_desc aS (groupby_Dots_sum ?K))"
      "agg_Name x = agg_Name a" "agg_Sex x = agg_Sex a"
      "agg_Division x = agg_Division a" "agg_Dots x = agg_Dots a"
    using add_Rank_fields by blast
  have "a \<in> set (groupby_Dots_sum ?K)"
    using a(1) by (simp only: set_sort_values_Dots_desc [OF assms(1)])
  then have "agg_Dots a = sum_list (map dots_or_zero (filter (\<lambda>r. group_key r = Some (key_of a)) ?K))"
    by (rule Dots_groupby)
  moreover have "key_of x = key_of a" using a by (simp add: key_of_def)
  ultimately show ?thesis using a(5) by simp
qed

lemma filter_group_key:
  "filter (\<lambda>r. group_key r = Some (n, s, d)) K =
   filter (\<lambda>r. Sex r = Some s \<and> Division r = Some d) (filter (\<lambda>r. Name r = n) K)"
  by (auto simp: group_key_Some intro: filter_cong)

lemma length_filter_Name_sort:
  assumes "is_argsort aD"
  shows "length (filter (\<lambda>r. Name r = n) (sort_values_Date aD df)) = length (filter (\<lambda>r. Name r = n) df)"
proof -
  have "mset (filter (\<lambda>r. Name r = n) (sort_values_Date aD df)) = mset (filter (\<lambda>r. Name r = n) df)"
    by (simp only: mset_filter mset_sort_values_Date [OF assms])
  then show ?thesis by (rule mset_eq_length)
qed

lemma length_filter_disjoint:
  "(\<And>x. x \<in> set xs \<Longrightarrow> \<not> (P x \<and> Q x)) \<Longrightarrow>
   length (filter P xs) + length (filter Q xs) = length (filter (\<lambda>x. P x \<or> Q x) xs)"
  by (induction xs) auto

lemma sum_group_sizes:
  "distinct ks \<Longrightarrow>
   sum_list (map (\<lambda>k. length (filter (\<lambda>r. g r = Some k) K)) ks) =
   length (filter (\<lambda>r. \<exists>k\<in>set ks. g r = Some k) K)"
proof (induction ks)
  case Nil
  show ?case by simp
next
  case (Cons k ks)
  have "length (filter (\<lambda>r. g r = Some k) K) + length (filter (\<lambda>r. \<exists>k\<in>set ks. g r = Some k) K) =
        length (filter (\<lambda>r. g r = Some k \<or> (\<exists>k\<in>set ks. g r = Some k)) K)"
    using Cons.prems by (intro length_filter_disjoint) auto
  then show ?case using Cons by simp
qed

lemma length_filter_mono:
  "(\<And>x. x \<in> set xs \<Longrightarrow> P x \<Longrightarrow> Q x) \<Longrightarrow> length (filter P xs) \<le> length (filter Q xs)"
  by (induction xs) auto

lemma sort_values_Date_map:
  assumes "is_argsort a" and "\<And>r. Date (h r) = Date r"
  shows "sort_values_Date a (map h df) = map h (sort_values_Date a df)"
proof -
  let ?dated = "filter (\<lambda>r. Date r \<noteq> None) df"
  have f1: "filter (\<lambda>r. Date r \<noteq> None) (map h df) = map h ?dated"
    by (simp add: filter_map comp_def assms(2))
  have f2: "filter (\<lambda>r. Date r = None) (map h df) = map h (filter (\<lambda>r. Date r = None) df)"
    by (simp add: filter_map comp_def assms(2))
  have k: "map (\<lambda>r. the (Date r)) (map h ?dated) = map (\<lambda>r. the (Date r)) ?dated"
    by (simp add: assms(2))
  have "map (nth (map h ?dated)) (a (map (\<lambda>r. the (Date r)) ?dated)) =
        map h (map (nth ?dated) (a (map (\<lambda>r. the (Date r)) ?dated)))"
    by (rule map_take_argsort [OF assms(1), symmetric]) simp
  then show ?thesis
    by (simp only: sort_values_Date_def Let_def f1 f2 k map_append)
qed

lemma keep_rows_map:
  assumes "\<And>r. Name (h r) = Name r"
  shows "keep_rows seen (map h rs) = map h (keep_rows seen rs)"
  by (induction rs arbitrary: seen) (simp_all add: keep_rows_Nil keep_rows_Cons assms)

lemma limit_appearances_map:
  assumes "is_argsort a" and "\<And>r. Date (h r) = Date r" and "\<And>r. Name (h r) = Name r"
  shows "limit_appearances a (map h df) = map h (limit_appearances a df)"
  by (simp only: limit_appearances_keep sort_values_Date_map [OF assms(1,2)] keep_rows_map [OF assms(3)])

lemma groupby_Dots_sum_map:
  assumes "\<And>r. group_key (h r) = group_key r"
    and "\<And>r. group_key r \<noteq> None \<Longrightarrow> dots_or_zero (h r) = dots_or_zero r"
  shows "groupby_Dots_sum (map h K) = groupby_Dots_sum K"
proof -
  have 1: "List.map_filter group_key (map h K) = List.map_filter group_key K"
    by (simp add: List.map_filter_def filter_map comp_def assms(1))
  have 2: "sum_list (map dots_or_zero (filter (\<lambda>r. group_key r = Some k) (map h K))) =
           sum_list (map dots_or_zero (filter (\<lambda>r. group_key r = Some k) K))" for k
  proof -
    have "map dots_or_zero (filter (\<lambda>r. group_key r = Some k) (map h K)) =
          map (\<lambda>r. dots_or_zero (h r)) (filter (\<lambda>r. group_key r = Some k) K)"
      by (simp add: filter_map comp_def assms(1))
    also have "\<dots> = map dots_or_zero (filter (\<lambda>r. group_key r = Some k) K)"
      by (rule map_cong) (auto simp: assms(2))
    finally show ?thesis by simp
  qed
  show ?thesis by (simp only: groupby_Dots_sum_def 1 2)
qed

lemma assign_division_None: "assign_division r = None \<longleftrightarrow> Age r = None"
  by (simp add: assign_division_def Let_def split: option.splits)

lemma add_Division_row_Dots:
  fixes r :: row
  shows "\<lparr>Name = Name (if Age r = None then r\<lparr>Dots := g r\<rparr> else r),
          Sex = Sex (if Age r = None then r\<lparr>Dots := g r\<rparr> else r),
          Age = Age (if Age r = None then r\<lparr>Dots := g r\<rparr> else r),
          Dots = Dots (if Age r = None then r\<lparr>Dots := g r\<rparr> else r),
          Date = Date (if Age r = None then r\<lparr>Dots := g r\<rparr> else r),
          Division = assign_division (if Age r = None then r\<lparr>Dots := g r\<rparr> else r)\<rparr> =
         (let d = \<lparr>Name = Name r, Sex = Sex r, Age = Age r, Dots = Dots r, Date = Date r,
                    Division = assign_division r\<rparr>
          in if Division d = None then d\<lparr>Dots := g (row.truncate d)\<rparr> else d)"
  by (cases r) (auto simp: assign_division_def row.truncate_def Let_def split: option.splits)

lemma add_Division_map_Dots:
  "add_Division (map (\<lambda>r. if Age r = None then r\<lparr>Dots := g r\<rparr> else r) df) =
   map (\<lambda>d. if Division d = None then d\<lparr>Dots := g (row.truncate d)\<rparr> else d) (add_Division df)"
  unfolding add_Division_def map_map comp_def
  by (rule map_cong [OF refl]) (simp only: add_Division_row_Dots Let_def)

lemma filter_classified_all:
  assumes "list_all (\<lambda>r. Age r \<noteq> None) df"
  shows "filter (\<lambda>r. Division r \<noteq> None) (add_Division df) = add_Division df"
proof (rule filter_True, rule ballI)
  fix d assume "d \<in> set (add_Division df)"
  then obtain r where "r \<in> set df" "Division d = assign_division r"
    by (auto simp: add_Division_def)
  then show "Division d \<noteq> None"
    using assms by (auto simp: list_all_iff assign_division_None)
qed

section \<open>The pipeline on the example frames\<close>

text \<open>
  Each frame is run one stage at a time, with \<open>stable_argsort\<close> for both sorts.
\<close>

lemma classified_scenario:
  "add_Division frame_scenario =
     [\<lparr>Name = ''A'', Sex = Some ''M'', Age = Some 22, Dots = Some 300, Date = Some 4,
        Division = Some ''Junior Men''\<rparr>,
      \<lparr>Name = ''A'', Sex = Some ''M'', Age = Some 22, Dots = Some 100, Date = Some 1,
        Division = Some ''Junior Men''\<rparr>,
      \<lparr>Name = ''A'', Sex = Some ''M'', Age = Some 22, Dots = Some 150, Date = Some 3,
        Division = Some ''Junior Men''\<rparr>,
      \<lparr>Name = ''A'', Sex = Some ''M'', Age = Some 22, Dots = Some 200, Date = Some 2,
        Division = Some ''Junior Men''\<rparr>]"
  by (simp add: frame_scenario_def add_Division_def assign_division_def startswith_def upper_def upper_char_def
      strip_def isspace_def str_cell_def)

lemma limited_scenario:
  "limit_appearances stable_argsort (add_Division frame_scenario) =
     [\<lparr>Name = ''A'', Sex = Some ''M'', Age = Some 22, Dots = Some 100, Date = Some 1,
        Division = Some ''Junior Men''\<rparr>,
      \<lparr>Name = ''A'', Sex = Some ''M'', Age = Some 22, Dots = Some 200, Date = Some 2,
        Division = Some ''Junior Men''\<rparr>,
      \<lparr>Name = ''A'', Sex = Some ''M'', Age = Some 22, Dots = Some 150, Date = Some 3,
        Division = Some ''Junior Men''\<rparr>]"
  unfolding classified_scenario
  by (simp add: limit_appearances_def sort_values_Date_def stable_argsort_def)

lemma grouped_scenario:
  "groupby_Dots_sum (limit_appearances stable_argsort (add_Division frame_scenario)) =
     [\<lparr>agg_Name = ''A'', agg_Sex = ''M'', agg_Division = ''Junior Men'', agg_Dots = 450\<rparr>]"
  unfolding limited_scenario
  by (simp add: groupby_Dots_sum_def group_key_def List.map_filter_def dots_or_zero_def)

lemma ordered_scenario:
  "sort_values_Dots_desc stable_argsort
     (groupby_Dots_sum (limit_appearances stable_argsort (add_Division frame_scenario))) =
     [\<lparr>agg_Name = ''A'', agg_Sex = ''M'', agg_Division = ''Junior Men'', agg_Dots = 450\<rparr>]"
  unfolding grouped_scenario
  by (simp add: sort_values_Dots_desc_def stable_argsort_def)

lemma ranked_scenario:
  "process_novice stable_argsort stable_argsort frame_scenario =
     [\<lparr>agg_Name = ''A'', agg_Sex = ''M'', agg_Division = ''Junior Men'', agg_Dots = 450, Rank = 1\<rparr>]"
  unfolding process_novice_unfold ordered_scenario
  by (simp add: add_Rank_def rank_min_desc_def)

lemma classified_ties:
  "add_Division frame_ties =
     [\<lparr>Name = ''A'', Sex = Some ''M'', Age = Some 30, Dots = Some 450, Date = Some 1,
        Division = Some ''Open Men''\<rparr>,
      \<lparr>Name = ''B'', Sex = Some ''M'', Age = Some 30, Dots = Some 450, Date = Some 2,
        Division = Some ''Open Men''\<rparr>,
      \<lparr>Name = ''C'', Sex = Some ''M'', Age = Some 30, Dots = Some 500, Date = Some 3,
        Division = Some ''Open Men''\<rparr>]"
  by (simp add: frame_ties_def add_Division_def assign_division_def startswith_def upper_def upper_char_def
      strip_def isspace_def str_cell_def)

lemma limited_ties:
  "limit_appearances stable_argsort (add_Division frame_ties) =
     [\<lparr>Name = ''A'', Sex = Some ''M'', Age = Some 30, Dots = Some 450, Date = Some 1,
        Division = Some ''Open Men''\<rparr>,
      \<lparr>Name = ''B'', Sex = Some ''M'', Age = Some 30, Dots = Some 450, Date = Some 2,
        Division = Some ''Open Men''\<rparr>,
      \<lparr>Name = ''C'', Sex = Some ''M'', Age = Some 30, Dots = Some 500, Date = Some 3,
        Division = Some ''Open Men''\<rparr>]"
  unfolding classified_ties
  by (simp add: limit_appearances_def sort_values_Date_def stable_argsort_def)

lemma grouped_ties:
  "groupby_Dots_sum (limit_appearances stable_argsort (add_Division frame_ties)) =
     [\<lparr>agg_Name = ''A'', agg_Sex = ''M'', agg_Division = ''Open Men'', agg_Dots = 450\<rparr>,
      \<lparr>agg_Name = ''B'', agg_Sex = ''M'', agg_Division = ''Open Men'', agg_Dots = 450\<rparr>,
      \<lparr>agg_Name = ''C'', agg_Sex = ''M'', agg_Division = ''Open Men'', agg_Dots = 500\<rparr>]"
  unfolding limited_ties
  by (simp add: groupby_Dots_sum_def group_key_def List.map_filter_def dots_or_zero_def)

lemma ordered_ties:
  "sort_values_Dots_desc stable_argsort
     (groupby_Dots_sum (limit_appearances stable_argsort (add_Division frame_ties))) =
     [\<lparr>agg_Name = ''C'', agg_Sex = ''M'', agg_Division = ''Open Men'', agg_Dots = 500\<rparr>,
      \<lparr>agg_Name = ''A'', agg_Sex = ''M'', agg_Division = ''Open Men'', agg_Dots = 450\<rparr>,
      \<lparr>agg_Name = ''B'', agg_Sex = ''M'', agg_Division = ''Open Men'', agg_Dots = 450\<rparr>]"
  unfolding grouped_ties
  by (simp add: sort_values_Dots_desc_def stable_argsort_def)

lemma ranked_ties:
  "process_novice stable_argsort stable_argsort frame_ties =
     [\<lparr>agg_Name = ''C'', agg_Sex = ''M'', agg_Division = ''Open Men'', agg_Dots = 500, Rank = 1\<rparr>,
      \<lparr>agg_Name = ''A'', agg_Sex = ''M'', agg_Division = ''Open Men'', agg_Dots = 450, Rank = 2\<rparr>,
      \<lparr>agg_Name = ''B'', agg_Sex = ''M'', agg_Division = ''Open Men'', agg_Dots = 450, Rank = 2\<rparr>]"
  unfolding process_novice_unfold ordered_ties
  by (simp add: add_Rank_def rank_min_desc_def)

lemma classified_missing_age:
  "add_Division frame_missing_age =
     [\<lparr>Name = ''P'', Sex = Some ''M'', Age = None, Dots = Some 500, Date = Some 1,
        Division = None\<rparr>,
      \<lparr>Name = ''P'', Sex = Some ''M'', Age = Some 30, Dots = Some 100, Date = Some 2,
        Division = Some ''Open Men''\<rparr>,
      \<lparr>Name = ''P'', Sex = Some ''M'', Age = Some 30, Dots = Some 200, Date = Some 3,
        Division = Some ''Open Men''\<rparr>,
      \<lparr>Name = ''P'', Sex = Some ''M'', Age = Some 30, Dots = Some 300, Date = Some 4,
        Division = Some ''Open Men''\<rparr>]"
  by (simp add: frame_missing_age_def add_Division_def assign_division_def startswith_def upper_def upper_char_def
      strip_def isspace_def str_cell_def)

lemma limited_missing_age:
  "limit_appearances stable_argsort (add_Division frame_missing_age) =
     [\<lparr>Name = ''P'', Sex = Some ''M'', Age = None, Dots = Some 500, Date = Some 1,
        Division = None\<rparr>,
      \<lparr>Name = ''P'', Sex = Some ''M'', Age = Some 30, Dots = Some 100, Date = Some 2,
        Division = Some ''Open Men''\<rparr>,
      \<lparr>Name = ''P'', Sex = Some ''M'', Age = Some 30, Dots = Some 200, Date = Some 3,
        Division = Some ''Open Men''\<rparr>]"
  unfolding classified_missing_age
  by (simp add: limit_appearances_def sort_values_Date_def stable_argsort_def)

lemma grouped_missing_age:
  "groupby_Dots_sum (limit_appearances stable_argsort (add_Division frame_missing_age)) =
     [\<lparr>agg_Name = ''P'', agg_Sex = ''M'', agg_Division = ''Open Men'', agg_Dots = 300\<rparr>]"
  unfolding limited_missing_age
  by (simp add: groupby_Dots_sum_def group_key_def List.map_filter_def dots_or_zero_def)

lemma ordered_missing_age:
  "sort_values_Dots_desc stable_argsort
     (groupby_Dots_sum (limit_appearances stable_argsort (add_Division frame_missing_age))) =
     [\<lparr>agg_Name = ''P'', agg_Sex = ''M'', agg_Division = ''Open Men'', agg_Dots = 300\<rparr>]"
  unfolding grouped_missing_age
  by (simp add: sort_values_Dots_desc_def stable_argsort_def)

lemma ranked_missing_age:
  "process_novice stable_argsort stable_argsort frame_missing_age =
     [\<lparr>agg_Name = ''P'', agg_Sex = ''M'', agg_Division = ''Open Men'', agg_Dots = 300, Rank = 1\<rparr>]"
  unfolding process_novice_unfold ordered_missing_age
  by (simp add: add_Rank_def rank_min_desc_def)

lemma classified_two_divisions:
  "add_Division frame_two_divisions =
     [\<lparr>Name = ''R'', Sex = Some ''M'', Age = Some 23, Dots = Some 100, Date = Some 1,
        Division = Some ''Junior Men''\<rparr>,
      \<lparr>Name = ''R'', Sex = Some ''M'', Age = Some 24, Dots = Some 200, Date = Some 2,
        Division = Some ''Open Men''\<rparr>,
      \<lparr>Name = ''R'', Sex = Some ''M'', Age = Some 24, Dots = Some 300, Date = Some 3,
        Division = Some ''Open Men''\<rparr>,
      \<lparr>Name = ''R'', Sex = Some ''M'', Age = Some 24, Dots = Some 400, Date = Some 4,
        Division = Some ''Open Men''\<rparr>]"
  by (simp add: frame_two_divisions_def add_Division_def assign_division_def startswith_def upper_def upper_char_def
      strip_def isspace_def str_cell_def)

lemma limited_two_divisions:
  "limit_appearances stable_argsort (add_Division frame_two_divisions) =
     [\<lparr>Name = ''R'', Sex = Some ''M'', Age = Some 23, Dots = Some 100, Date = Some 1,
        Division = Some ''Junior Men''\<rparr>,
      \<lparr>Name = ''R'', Sex = Some ''M'', Age = Some 24, Dots = Some 200, Date = Some 2,
        Division = Some ''Open Men''\<rparr>,
      \<lparr>Name = ''R'', Sex = Some ''M'', Age = Some 24, Dots = Some 300, Date = Some 3,
        Division = Some ''Open Men''\<rparr>]"
  unfolding classified_two_divisions
  by (simp add: limit_appearances_def sort_values_Date_def stable_argsort_def)

lemma grouped_two_divisions:
  "groupby_Dots_sum (limit_appearances stable_argsort (add_Division frame_two_divisions)) =
     [\<lparr>agg_Name = ''R'', agg_Sex = ''M'', agg_Division = ''Junior Men'', agg_Dots = 100\<rparr>,
      \<lparr>agg_Name = ''R'', agg_Sex = ''M'', agg_Division = ''Open Men'', agg_Dots = 500\<rparr>]"
  unfolding limited_two_divisions
  by (simp add: groupby_Dots_sum_def group_key_def List.map_filter_def dots_or_zero_def)

lemma ordered_two_divisions:
  "sort_values_Dots_desc stable_argsort
     (groupby_Dots_sum (limit_appearances stable_argsort (add_Division frame_two_divisions))) =
     [\<lparr>agg_Name = ''R'', agg_Sex = ''M'', agg_Division = ''Open Men'', agg_Dots = 500\<rparr>,
      \<lparr>agg_Name = ''R'', agg_Sex = ''M'', agg_Division = ''Junior Men'', agg_Dots = 100\<rparr>]"
  unfolding grouped_two_divisions
  by (simp add: sort_values_Dots_desc_def stable_argsort_def)

lemma ranked_two_divisions:
  "process_novice stable_argsort stable_argsort frame_two_divisions =
     [\<lparr>agg_Name = ''R'', agg_Sex = ''M'', agg_Division = ''Open Men'', agg_Dots = 500, Rank = 1\<rparr>,
      \<lparr>agg_Name = ''R'', agg_Sex = ''M'', agg_Division = ''Junior Men'', agg_Dots = 100, Rank = 1\<rparr>]"
  unfolding process_novice_unfold ordered_two_divisions
  by (simp add: add_Rank_def rank_min_desc_def)

lemma classified_no_age:
  "add_Division frame_no_age =
     [\<lparr>Name = ''S'', Sex = Some ''F'', Age = None, Dots = Some 250, Date = Some 1,
        Division = None\<rparr>,
      \<lparr>Name = ''T'', Sex = Some ''M'', Age = None, Dots = Some 300, Date = Some 2,
        Division = None\<rparr>]"
  by (simp add: frame_no_age_def add_Division_def assign_division_def startswith_def upper_def upper_char_def
      strip_def isspace_def str_cell_def)

lemma limited_no_age:
  "limit_appearances stable_argsort (add_Division frame_no_age) =
     [\<lparr>Name = ''S'', Sex = Some ''F'', Age = None, Dots = Some 250, Date = Some 1,
        Division = None\<rparr>,
      \<lparr>Name = ''T'', Sex = Some ''M'', Age = None, Dots = Some 300, Date = Some 2,
        Division = None\<rparr>]"
  unfolding classified_no_age
  by (simp add: limit_appearances_def sort_values_Date_def stable_argsort_def)

lemma grouped_no_age:
  "groupby_Dots_sum (limit_appearances stable_argsort (add_Division frame_no_age)) =
     []"
  unfolding limited_no_age
  by (simp add: groupby_Dots_sum_def group_key_def List.map_filter_def dots_or_zero_def)

lemma ordered_no_age:
  "sort_values_Dots_desc stable_argsort
     (groupby_Dots_sum (limit_appearances stable_argsort (add_Division frame_no_age))) =
     []"
  unfolding grouped_no_age
  by (simp add: sort_values_Dots_desc_def stable_argsort_def)

lemma ranked_no_age:
  "process_novice stable_argsort stable_argsort frame_no_age =
     []"
  unfolding process_novice_unfold ordered_no_age
  by (simp add: add_Rank_def rank_min_desc_def)

lemma classified_missing_sex:
  "add_Division frame_missing_sex =
     [\<lparr>Name = ''U'', Sex = None, Age = Some 30, Dots = Some 100, Date = Some 1,
        Division = Some ''Open Women''\<rparr>,
      \<lparr>Name = ''U'', Sex = Some ''M'', Age = Some 30, Dots = Some 200, Date = Some 2,
        Division = Some ''Open Men''\<rparr>]"
  by (simp add: frame_missing_sex_def add_Division_def assign_division_def startswith_def upper_def upper_char_def
      strip_def isspace_def str_cell_def)

lemma limited_missing_sex:
  "limit_appearances stable_argsort (add_Division frame_missing_sex) =
     [\<lparr>Name = ''U'', Sex = None, Age = Some 30, Dots = Some 100, Date = Some 1,
        Division = Some ''Open Women''\<rparr>,
      \<lparr>Name = ''U'', Sex = Some ''M'', Age = Some 30, Dots = Some 200, Date = Some 2,
        Division = Some ''Open Men''\<rparr>]"
  unfolding classified_missing_sex
  by (simp add: limit_appearances_def sort_values_Date_def stable_argsort_def)

lemma grouped_missing_sex:
  "groupby_Dots_sum (limit_appearances stable_argsort (add_Division frame_missing_sex)) =
     [\<lparr>agg_Name = ''U'', agg_Sex = ''M'', agg_Division = ''Open Men'', agg_Dots = 200\<rparr>]"
  unfolding limited_missing_sex
  by (simp add: groupby_Dots_sum_def group_key_def List.map_filter_def dots_or_zero_def)

lemma ordered_missing_sex:
  "sort_values_Dots_desc stable_argsort
     (groupby_Dots_sum (limit_appearances stable_argsort (add_Division frame_missing_sex))) =
     [\<lparr>agg_Name = ''U'', agg_Sex = ''M'', agg_Division = ''Open Men'', agg_Dots = 200\<rparr>]"
  unfolding grouped_missing_sex
  by (simp add: sort_values_Dots_desc_def stable_argsort_def)

lemma ranked_missing_sex:
  "process_novice stable_argsort stable_argsort frame_missing_sex =
     [\<lparr>agg_Name = ''U'', agg_Sex = ''M'', agg_Division = ''Open Men'', agg_Dots = 200, Rank = 1\<rparr>]"
  unfolding process_novice_unfold ordered_missing_sex
  by (simp add: add_Rank_def rank_min_desc_def)

lemma limited_undated_raw:
  "limit_appearances stable_argsort frame_undated =
     [\<lparr>Name = ''Q'', Sex = Some ''F'', Age = Some 45, Dots = Some 10, Date = Some 1\<rparr>,
      \<lparr>Name = ''Q'', Sex = Some ''F'', Age = Some 45, Dots = Some 20, Date = Some 2\<rparr>,
      \<lparr>Name = ''Q'', Sex = Some ''F'', Age = Some 45, Dots = Some 1000, Date = None\<rparr>]"
  by (simp add: frame_undated_def limit_appearances_def sort_values_Date_def stable_argsort_def)

lemma ranked_drop_first_missing_age:
  "process_novice_drop_first stable_argsort stable_argsort frame_missing_age =
     [\<lparr>agg_Name = ''P'', agg_Sex = ''M'', agg_Division = ''Open Men'', agg_Dots = 600, Rank = 1\<rparr>]"
proof -
  have 1: "filter (\<lambda>r. Division r \<noteq> None) (add_Division frame_missing_age) =
       [\<lparr>Name = ''P'', Sex = Some ''M'', Age = Some 30, Dots = Some 100, Date = Some 2,
        Division = Some ''Open Men''\<rparr>,
        \<lparr>Name = ''P'', Sex = Some ''M'', Age = Some 30, Dots = Some 200, Date = Some 3,
        Division = Some ''Open Men''\<rparr>,
        \<lparr>Name = ''P'', Sex = Some ''M'', Age = Some 30, Dots = Some 300, Date = Some 4,
        Division = Some ''Open Men''\<rparr>]"
    unfolding classified_missing_age by simp
  have 2: "limit_appearances stable_argsort
       [\<lparr>Name = ''P'', Sex = Some ''M'', Age = Some 30, Dots = Some 100, Date = Some 2,
        Division = Some ''Open Men''\<rparr>,
        \<lparr>Name = ''P'', Sex = Some ''M'', Age = Some 30, Dots = Some 200, Date = Some 3,
        Division = Some ''Open Men''\<rparr>,
        \<lparr>Name = ''P'', Sex = Some ''M'', Age = Some 30, Dots = Some 300, Date = Some 4,
        Division = Some ''Open Men''\<rparr>] =
       [\<lparr>Name = ''P'', Sex = Some ''M'', Age = Some 30, Dots = Some 100, Date = Some 2,
        Division = Some ''Open Men''\<rparr>,
        \<lparr>Name = ''P'', Sex = Some ''M'', Age = Some 30, Dots = Some 200, Date = Some 3,
        Division = Some ''Open Men''\<rparr>,
        \<lparr>Name = ''P'', Sex = Some ''M'', Age = Some 30, Dots = Some 300, Date = Some 4,
        Division = Some ''Open Men''\<rparr>]"
    by (simp add: limit_appearances_def sort_values_Date_def stable_argsort_def)
  have 3: "groupby_Dots_sum
       [\<lparr>Name = ''P'', Sex = Some ''M'', Age = Some 30, Dots = Some 100, Date = Some 2,
        Division = Some ''Open Men''\<rparr>,
        \<lparr>Name = ''P'', Sex = Some ''M'', Age = Some 30, Dots = Some 200, Date = Some 3,
        Division = Some ''Open Men''\<rparr>,
        \<lparr>Name = ''P'', Sex = Some ''M'', Age = Some 30, Dots = Some 300, Date = Some 4,
        Division = Some ''Open Men''\<rparr>] =
       [\<lparr>agg_Name = ''P'', agg_Sex = ''M'', agg_Division = ''Open Men'', agg_Dots = 600\<rparr>]"
    by (simp add: groupby_Dots_sum_def group_key_def List.map_filter_def dots_or_zero_def)
  have 4: "sort_values_Dots_desc stable_argsort
       [\<lparr>agg_Name = ''P'', agg_Sex = ''M'', agg_Division = ''Open Men'', agg_Dots = 600\<rparr>] =
       [\<lparr>agg_Name = ''P'', agg_Sex = ''M'', agg_Division = ''Open Men'', agg_Dots = 600\<rparr>]"
    by (simp add: sort_values_Dots_desc_def stable_argsort_def)
  show ?thesis
    unfolding process_novice_drop_first_def Let_def 1 2 3 4
    by (simp add: add_Rank_def rank_min_desc_def)
qed

section \<open>The claims\<close>

subsection \<open>C1: which appearances are summed\<close>

text \<open>
  C1, as the source has it. The limiter counts every row that bears the participant's name,
  whatever its age, sex or score. Put all the rows in date order, the rows without a date
  last (\<open>sort_values_Date\<close> is such an arrangement of the classified frame, in which a row
  has a division exactly when it has an age). Of the rows of one name the limiter keeps the
  first three, and all of them when the name has three rows or fewer. An output row for a
  name, sex and division exists exactly when one of the first three rows of that name
  carries that sex and that division, and its total is the sum of the Dots of those among
  the first three rows of the name that carry them. So the score of a record is in a total
  exactly when the record is among the first three of its name and has both a Sex and an
  age; a kept row that lacks either is in no total.
\<close>

theorem earliest_three_per_name:
  assumes "is_argsort aD" and "is_argsort aS"
  shows "mset (sort_values_Date aD (add_Division df)) = mset (add_Division df) \<and>
    sorted_wrt (\<lambda>x y. date_le (Date x) (Date y)) (sort_values_Date aD (add_Division df)) \<and>
    (\<forall>r\<in>set (sort_values_Date aD (add_Division df)). Division r = None \<longleftrightarrow> Age r = None) \<and>
    (\<forall>n. filter (\<lambda>r. Name r = n) (limit_appearances aD (add_Division df)) =
          take 3 (filter (\<lambda>r. Name r = n) (sort_values_Date aD (add_Division df)))) \<and>
    (\<forall>n. length (filter (\<lambda>r. Name r = n) df) \<le> 3 \<longrightarrow>
          take 3 (filter (\<lambda>r. Name r = n) (sort_values_Date aD (add_Division df))) =
          filter (\<lambda>r. Name r = n) (sort_values_Date aD (add_Division df))) \<and>
    (\<forall>n s d. (\<exists>a\<in>set (process_novice aD aS df). key_of a = (n, s, d)) \<longleftrightarrow>
       (\<exists>r\<in>set (take 3 (filter (\<lambda>r. Name r = n) (sort_values_Date aD (add_Division df)))).
           Sex r = Some s \<and> Division r = Some d)) \<and>
    (\<forall>a\<in>set (process_novice aD aS df).
       agg_Dots a = sum_list (map dots_or_zero
         (filter (\<lambda>r. Sex r = Some (agg_Sex a) \<and> Division r = Some (agg_Division a))
            (take 3 (filter (\<lambda>r. Name r = agg_Name a) (sort_values_Date aD (add_Division df)))))))"
proof (intro conjI allI ballI impI)
  let ?S = "sort_values_Date aD (add_Division df)"
  let ?K = "limit_appearances aD (add_Division df)"
  show "mset ?S = mset (add_Division df)" by (rule mset_sort_values_Date [OF assms(1)])
  show "sorted_wrt (\<lambda>x y. date_le (Date x) (Date y)) ?S"
    by (rule sorted_sort_values_Date [OF assms(1)])
  show "Division r = None \<longleftrightarrow> Age r = None" if "r \<in> set ?S" for r
  proof -
    have "r \<in># mset ?S" using that by simp
    then have "r \<in> set (add_Division df)"
      by (simp only: mset_sort_values_Date [OF assms(1)]) simp
    then show ?thesis by (auto simp: add_Division_def assign_division_None)
  qed
  show "filter (\<lambda>r. Name r = n) ?K = take 3 (filter (\<lambda>r. Name r = n) ?S)" for n
    by (rule filter_limit_appearances)
  show "take 3 (filter (\<lambda>r. Name r = n) ?S) = filter (\<lambda>r. Name r = n) ?S"
    if "length (filter (\<lambda>r. Name r = n) df) \<le> 3" for n
  proof -
    have "length (filter (\<lambda>r. Name r = n) (add_Division df)) = length (filter (\<lambda>r. Name r = n) df)"
      by (simp add: add_Division_def filter_map comp_def)
    then have "length (filter (\<lambda>r. Name r = n) ?S) \<le> 3"
      using that by (simp add: length_filter_Name_sort [OF assms(1)])
    then show ?thesis by simp
  qed
  have grp: "filter (\<lambda>r. group_key r = Some (n, s, d)) ?K =
             filter (\<lambda>r. Sex r = Some s \<and> Division r = Some d)
               (take 3 (filter (\<lambda>r. Name r = n) ?S))" for n s d
    by (simp only: filter_group_key filter_limit_appearances)
  show "(\<exists>a\<in>set (process_novice aD aS df). key_of a = (n, s, d)) \<longleftrightarrow>
       (\<exists>r\<in>set (take 3 (filter (\<lambda>r. Name r = n) ?S)). Sex r = Some s \<and> Division r = Some d)"
    for n s d
  proof -
    have "(\<exists>a\<in>set (process_novice aD aS df). key_of a = (n, s, d)) \<longleftrightarrow>
          (n, s, d) \<in> set (map key_of (process_novice aD aS df))" by force
    also have "\<dots> \<longleftrightarrow> (\<exists>r\<in>set ?K. group_key r = Some (n, s, d))"
      by (simp only: keys_process_novice [OF assms(2)]) simp
    also have "\<dots> \<longleftrightarrow> set (filter (\<lambda>r. group_key r = Some (n, s, d)) ?K) \<noteq> {}"
      by auto
    also have "\<dots> \<longleftrightarrow> (\<exists>r\<in>set (take 3 (filter (\<lambda>r. Name r = n) ?S)).
                            Sex r = Some s \<and> Division r = Some d)"
      by (simp only: grp) auto
    finally show ?thesis .
  qed
  fix a assume a: "a \<in> set (process_novice aD aS df)"
  have "agg_Dots a = sum_list (map dots_or_zero
          (filter (\<lambda>r. group_key r = Some (agg_Name a, agg_Sex a, agg_Division a)) ?K))"
    using Dots_process_novice [OF assms(2) a] by (simp only: key_of_def)
  then show "agg_Dots a = sum_list (map dots_or_zero
         (filter (\<lambda>r. Sex r = Some (agg_Sex a) \<and> Division r = Some (agg_Division a))
            (take 3 (filter (\<lambda>r. Name r = agg_Name a) ?S))))"
    by (simp only: grp)
qed

text \<open>The first scenario of the spec: the total of A is 100 + 200 + 150.\<close>

theorem earliest_three_per_name_witness:
  "is_argsort (stable_argsort :: int list \<Rightarrow> nat list) \<and>
   is_argsort (stable_argsort :: rat list \<Rightarrow> nat list) \<and>
   process_novice stable_argsort stable_argsort frame_scenario =
     [\<lparr>agg_Name = ''A'', agg_Sex = ''M'', agg_Division = ''Junior Men'', agg_Dots = 450,
        Rank = 1\<rparr>] \<and>
   (450 :: rat) = sum_list (map dots_or_zero
     (filter (\<lambda>r. Sex r = Some ''M'' \<and> Division r = Some ''Junior Men'')
        (take 3 (filter (\<lambda>r. Name r = ''A'')
           (sort_values_Date stable_argsort (add_Division frame_scenario))))))"
  using earliest_three_per_name [OF is_argsort_stable is_argsort_stable, of frame_scenario]
  by (simp add: ranked_scenario is_argsort_stable)

text \<open>
  A kept row without a Sex: in \<open>frame_missing_sex\<close> both records of U have an age and a
  score, the earlier one has no Sex. It is labelled Open Women and kept by the limiter
  (lemma \<open>limited_missing_sex\<close>), and the aggregation leaves it out: the one row of the
  result is U in Open Men with 200 (lemma \<open>ranked_missing_sex\<close>).
\<close>

text \<open>
  C1 as stated counts qualifying records only. In \<open>frame_missing_age\<close> participant P has
  three qualifying records, with the scores 100, 200 and 300, and one earlier record without
  an age. The record without an age takes the first of the three places, the record of
  date 4 is dropped, and the total is 300, not 600. The four dates differ, so every sort by
  the key puts the rows in this order.
\<close>

theorem qualifying_record_lost_counterexample:
  "map Name frame_missing_age = [''P'', ''P'', ''P'', ''P''] \<and>
   map Age frame_missing_age = [None, Some 30, Some 30, Some 30] \<and>
   map Dots frame_missing_age = [Some 500, Some 100, Some 200, Some 300] \<and>
   map Date frame_missing_age = [Some 1, Some 2, Some 3, Some 4] \<and>
   process_novice stable_argsort stable_argsort frame_missing_age =
     [\<lparr>agg_Name = ''P'', agg_Sex = ''M'', agg_Division = ''Open Men'', agg_Dots = 300,
        Rank = 1\<rparr>]"
  by (simp add: ranked_missing_age) (simp add: frame_missing_age_def)

subsection \<open>C2: ranks within a division\<close>

text \<open>
  C2. For any two rows of the result in the same division, the larger total has the
  smaller rank and equal totals have equal ranks. Every rank is at least 1 and is one more
  than the number of rows of the division with a strictly larger total: the minimum-rank
  convention, whose only gaps are those left by ties. (pandas stores the rank as a float
  with a whole value; the model keeps the value.) The statement holds whatever the two
  sorts do.
\<close>

theorem rank_within_division:
  "(\<forall>x\<in>set (process_novice aD aS df). \<forall>y\<in>set (process_novice aD aS df).
      agg_Division x = agg_Division y \<longrightarrow>
        (agg_Dots y < agg_Dots x \<longrightarrow> Rank x < Rank y) \<and>
        (agg_Dots x = agg_Dots y \<longrightarrow> Rank x = Rank y)) \<and>
   (\<forall>x\<in>set (process_novice aD aS df).
      1 \<le> Rank x \<and>
      Rank x = 1 + length (filter (\<lambda>z. agg_Division z = agg_Division x \<and> agg_Dots x < agg_Dots z)
                            (process_novice aD aS df)))"
proof -
  define agg where "agg = sort_values_Dots_desc aS (groupby_Dots_sum (limit_appearances aD (add_Division df)))"
  have out: "process_novice aD aS df = add_Rank agg"
    by (simp add: process_novice_unfold agg_def)
  have rank: "Rank x = Suc (length (filter (\<lambda>b. agg_Division b = agg_Division x \<and> agg_Dots x < agg_Dots b) agg))"
    if "x \<in> set (add_Rank agg)" for x
    using that by (rule Rank_add_Rank)
  have less: "Rank x < Rank y"
    if x: "x \<in> set (add_Rank agg)" and y: "y \<in> set (add_Rank agg)"
      and d: "agg_Division x = agg_Division y" and lt: "agg_Dots y < agg_Dots x" for x y
  proof -
    obtain a where a: "a \<in> set agg" "agg_Division x = agg_Division a" "agg_Dots x = agg_Dots a"
      using add_Rank_fields [OF x] by blast
    have "length (filter (\<lambda>b. agg_Division b = agg_Division x \<and> agg_Dots x < agg_Dots b) agg)
        < length (filter (\<lambda>b. agg_Division b = agg_Division y \<and> agg_Dots y < agg_Dots b) agg)"
    proof (rule length_filter_less [where w = a])
      show "a \<in> set agg" by (rule a(1))
      show "agg_Division a = agg_Division y \<and> agg_Dots y < agg_Dots a" using a d lt by simp
      show "\<not> (agg_Division a = agg_Division x \<and> agg_Dots x < agg_Dots a)" using a by simp
    next
      fix z assume "agg_Division z = agg_Division x \<and> agg_Dots x < agg_Dots z"
      then show "agg_Division z = agg_Division y \<and> agg_Dots y < agg_Dots z" using d lt by auto
    qed
    then show ?thesis by (simp add: rank [OF x] rank [OF y])
  qed
  have eq: "Rank x = Rank y"
    if x: "x \<in> set (add_Rank agg)" and y: "y \<in> set (add_Rank agg)"
      and d: "agg_Division x = agg_Division y" and e: "agg_Dots x = agg_Dots y" for x y
    by (simp add: rank [OF x] rank [OF y] d e)
  have cnt: "Rank x = 1 + length (filter (\<lambda>z. agg_Division z = agg_Division x \<and> agg_Dots x < agg_Dots z) (add_Rank agg))"
    if x: "x \<in> set (add_Rank agg)" for x
    by (simp add: rank [OF x] length_filter_add_Rank)
  have pos: "1 \<le> Rank x" if x: "x \<in> set (add_Rank agg)" for x
    by (simp add: rank [OF x])
  show ?thesis
    unfolding out
  proof (intro conjI ballI impI)
    fix x y
    assume "x \<in> set (add_Rank agg)" "y \<in> set (add_Rank agg)" "agg_Division x = agg_Division y"
      "agg_Dots y < agg_Dots x"
    then show "Rank x < Rank y" by (rule less)
  next
    fix x y
    assume "x \<in> set (add_Rank agg)" "y \<in> set (add_Rank agg)" "agg_Division x = agg_Division y"
      "agg_Dots x = agg_Dots y"
    then show "Rank x = Rank y" by (rule eq)
  next
    fix x assume "x \<in> set (add_Rank agg)"
    then show "1 \<le> Rank x" by (rule pos)
  next
    fix x assume "x \<in> set (add_Rank agg)"
    then show "Rank x = 1 + length (filter (\<lambda>z. agg_Division z = agg_Division x \<and> agg_Dots x < agg_Dots z) (add_Rank agg))"
      by (rule cnt)
  qed
qed

text \<open>The second scenario of the spec: C has rank 1, A and B share rank 2.\<close>

theorem rank_within_division_witness:
  "map agg_Dots (process_novice stable_argsort stable_argsort frame_ties) = [500, 450, 450] \<and>
   map Rank (process_novice stable_argsort stable_argsort frame_ties) = [1, 2, 2] \<and>
   Rank (process_novice stable_argsort stable_argsort frame_ties ! 0) <
     Rank (process_novice stable_argsort stable_argsort frame_ties ! 1) \<and>
   Rank (process_novice stable_argsort stable_argsort frame_ties ! 1) =
     Rank (process_novice stable_argsort stable_argsort frame_ties ! 2)"
  using rank_within_division [of stable_argsort stable_argsort frame_ties]
  by (simp add: ranked_ties)

subsection \<open>C3: the division label\<close>

text \<open>
  C3, as the source has it. For a record with a present age the label is the age band, a
  space and the sex bucket: Junior below 24, Open from 24 and below 40, Masters from 40.
  The bucket is Men exactly when the Sex cell is present and, once its leading white space
  is removed, begins with \<^verbatim>\<open>m\<close> or \<^verbatim>\<open>M\<close>; it is Women otherwise, a missing Sex included.
  The source calls \<^verbatim>\<open>.strip()\<close> before the test, so the white space in front of the letter
  does not count.
\<close>

theorem assign_division_label:
  assumes "Age r = Some a"
  shows "\<exists>band bucket. assign_division r = Some (band @ '' '' @ bucket) \<and>
     (band = ''Junior'' \<longleftrightarrow> a < 24) \<and>
     (band = ''Open'' \<longleftrightarrow> 24 \<le> a \<and> a < 40) \<and>
     (band = ''Masters'' \<longleftrightarrow> 40 \<le> a) \<and>
     (bucket = ''Men'' \<longleftrightarrow>
        (\<exists>s c t. Sex r = Some s \<and> dropWhile isspace s = c # t \<and> (c = CHR ''m'' \<or> c = CHR ''M''))) \<and>
     (bucket = ''Women'' \<longleftrightarrow>
        \<not> (\<exists>s c t. Sex r = Some s \<and> dropWhile isspace s = c # t \<and> (c = CHR ''m'' \<or> c = CHR ''M'')))"
proof -
  let ?men = "\<exists>s c t. Sex r = Some s \<and> dropWhile isspace s = c # t \<and> (c = CHR ''m'' \<or> c = CHR ''M'')"
  have men: "startswith (upper (strip (str_cell (Sex r)))) ''M'' \<longleftrightarrow> ?men"
  proof (cases "Sex r")
    case None
    then show ?thesis
      by (simp add: str_cell_def strip_def isspace_def upper_def upper_char_def startswith_def)
  next
    case (Some s)
    then show ?thesis by (simp add: str_cell_def startswith_M)
  qed
  let ?band = "if a < 24 then ''Junior'' else if a < 40 then ''Open'' else ''Masters''"
  let ?bucket = "if ?men then ''Men'' else ''Women''"
  have "assign_division r = Some (?band @ '' '' @ ?bucket)"
    using assms men by (simp add: assign_division_def Let_def)
  moreover have "(?band = ''Junior'' \<longleftrightarrow> a < 24) \<and> (?band = ''Open'' \<longleftrightarrow> 24 \<le> a \<and> a < 40) \<and>
     (?band = ''Masters'' \<longleftrightarrow> 40 \<le> a)" by simp
  moreover have "(?bucket = ''Men'' \<longleftrightarrow> ?men) \<and> (?bucket = ''Women'' \<longleftrightarrow> \<not> ?men)" by simp
  ultimately show ?thesis by blast
qed

text \<open>
  A sex string with a space in front of the letter, and an age between two whole numbers.
\<close>

theorem assign_division_label_witness:
  "\<exists>band bucket. assign_division \<lparr>Name = ''Ann'', Sex = Some '' male'', Age = Some (47 / 2), Dots = Some 100, Date = None\<rparr>
       = Some (band @ '' '' @ bucket) \<and> band = ''Junior'' \<and> bucket = ''Men''"
  using assign_division_label [of "\<lparr>Name = ''Ann'', Sex = Some '' male'', Age = Some (47 / 2), Dots = Some 100, Date = None\<rparr>" "47 / 2"]
  by (simp add: isspace_def)

text \<open>
  C3 as stated says Men exactly when the sex string itself starts with \<^verbatim>\<open>m\<close> or \<^verbatim>\<open>M\<close>. The
  string \<^verbatim>\<open>" M"\<close> starts with a space, and the source puts it in the Men bucket.
\<close>

theorem assign_division_strips_counterexample:
  "assign_division \<lparr>Name = ''Ann'', Sex = Some '' M'', Age = Some 30, Dots = Some 100, Date = Some 1\<rparr>
     = Some ''Open Men'' \<and> \<not> startswith '' M'' ''M'' \<and> \<not> startswith '' M'' ''m''"
  by (simp add: assign_division_def startswith_def upper_def upper_char_def strip_def isspace_def str_cell_def)

subsection \<open>C4: no classified record\<close>

text \<open>
  C4, as the source has it. \<^verbatim>\<open>process_novice\<close> has one kind of result, a table, and no
  outcome that stands for a lack of data. When the input has records and none of them has
  an age, the result is the empty table. (The input without any record is left out: what
  the source does with it is decided inside \<^verbatim>\<open>df.apply\<close>, see \<open>add_Division\<close>.)
\<close>

theorem no_classified_record_empty_table:
  assumes "is_argsort aD" and "is_argsort aS"
    and "df \<noteq> []" and "list_all (\<lambda>r. Age r = None) df"
  shows "process_novice aD aS df = []"
proof -
  let ?K = "limit_appearances aD (add_Division df)"
  have "set (map key_of (process_novice aD aS df)) = {}"
  proof -
    have "group_key d = None" if "d \<in> set ?K" for d
    proof -
      have "d \<in> set (sort_values_Date aD (add_Division df))"
        using that set_keep_rows by (auto simp only: limit_appearances_keep)
      then have "d \<in># mset (sort_values_Date aD (add_Division df))" by simp
      then have "d \<in> set (add_Division df)"
        by (simp only: mset_sort_values_Date [OF assms(1)]) simp
      then have "Division d = None"
        using assms(4) by (auto simp: add_Division_def list_all_iff assign_division_None)
      then show ?thesis by (simp add: group_key_None)
    qed
    then show ?thesis by (simp only: keys_process_novice [OF assms(2)]) auto
  qed
  then show ?thesis by simp
qed

text \<open>
  Two records, neither with an age: the result is the empty table.
\<close>

theorem no_classified_record_empty_table_witness:
  "is_argsort (stable_argsort :: int list \<Rightarrow> nat list) \<and>
   is_argsort (stable_argsort :: rat list \<Rightarrow> nat list) \<and>
   frame_no_age \<noteq> [] \<and>
   list_all (\<lambda>r. Age r = None) frame_no_age \<and>
   process_novice stable_argsort stable_argsort frame_no_age = []"
proof -
  have rows: "frame_no_age \<noteq> []"
    by (simp add: frame_no_age_def)
  have none: "list_all (\<lambda>r. Age r = None) frame_no_age"
    by (simp add: frame_no_age_def)
  show ?thesis
    using no_classified_record_empty_table [OF is_argsort_stable is_argsort_stable rows none]
      rows none
    by (simp add: is_argsort_stable)
qed

text \<open>
  C4 as stated asks for an outcome of its own when no record survives the classification.
  \<open>frame_no_age\<close> has two records, with the scores 250 and 300 and no age; the result is
  an empty table, a value of the same kind as every other result, with nothing in it that
  tells it from the table of a season without qualifiers.
\<close>

theorem empty_table_counterexample:
  "map Name frame_no_age = [''S'', ''T''] \<and>
   map Age frame_no_age = [None, None] \<and>
   map Dots frame_no_age = [Some 250, Some 300] \<and>
   process_novice stable_argsort stable_argsort frame_no_age = []"
  by (simp add: ranked_no_age) (simp add: frame_no_age_def)

subsection \<open>C5: the order of the stages\<close>

text \<open>
  C5, as the source has it. The stages run in the order classify, limit appearances,
  drop the unclassified rows, aggregate, rank: the rows without a division leave the frame
  only in the aggregation (\<^verbatim>\<open>groupby\<close> skips a row whose key has a missing cell), after the
  limiter has numbered them with the others. Writing the removal as a stage of its own
  between the limiter and the aggregation gives the source's result. For every name, the
  classified rows that reach the sum are the classified ones among its first three rows,
  not the first three of its classified rows. On a frame in which every record has an age
  the two orders give the same result.
\<close>

theorem unclassified_dropped_after_limit:
  "process_novice aD aS df =
     add_Rank (sort_values_Dots_desc aS (groupby_Dots_sum
       (filter (\<lambda>r. Division r \<noteq> None) (limit_appearances aD (add_Division df))))) \<and>
   (\<forall>n. filter (\<lambda>r. Name r = n)
          (filter (\<lambda>r. Division r \<noteq> None) (limit_appearances aD (add_Division df))) =
        filter (\<lambda>r. Division r \<noteq> None)
          (take 3 (filter (\<lambda>r. Name r = n) (sort_values_Date aD (add_Division df))))) \<and>
   (list_all (\<lambda>r. Age r \<noteq> None) df \<longrightarrow>
      process_novice_drop_first aD aS df = process_novice aD aS df)"
proof (intro conjI allI impI)
  show "process_novice aD aS df =
     add_Rank (sort_values_Dots_desc aS (groupby_Dots_sum
       (filter (\<lambda>r. Division r \<noteq> None) (limit_appearances aD (add_Division df)))))"
    by (simp only: process_novice_unfold groupby_drop_unclassified)
next
  fix n
  let ?K = "limit_appearances aD (add_Division df)"
  have "filter (\<lambda>r. Name r = n) (filter (\<lambda>r. Division r \<noteq> None) ?K) =
        filter (\<lambda>r. Division r \<noteq> None) (filter (\<lambda>r. Name r = n) ?K)"
    by (simp add: conj_commute)
  then show "filter (\<lambda>r. Name r = n) (filter (\<lambda>r. Division r \<noteq> None) ?K) =
        filter (\<lambda>r. Division r \<noteq> None)
          (take 3 (filter (\<lambda>r. Name r = n) (sort_values_Date aD (add_Division df))))"
    by (simp only: filter_limit_appearances)
next
  assume "list_all (\<lambda>r. Age r \<noteq> None) df"
  then have "filter (\<lambda>r. Division r \<noteq> None) (add_Division df) = add_Division df"
    by (rule filter_classified_all)
  then show "process_novice_drop_first aD aS df = process_novice aD aS df"
    by (simp add: process_novice_drop_first_def process_novice_def Let_def)
qed

text \<open>
  Every record of the first scenario has an age, and the stage order of the spec gives the
  result of the source.
\<close>

theorem unclassified_dropped_after_limit_witness:
  "list_all (\<lambda>r. Age r \<noteq> None) frame_scenario \<and>
   process_novice_drop_first stable_argsort stable_argsort frame_scenario =
     [\<lparr>agg_Name = ''A'', agg_Sex = ''M'', agg_Division = ''Junior Men'', agg_Dots = 450,
        Rank = 1\<rparr>]"
proof -
  have ages: "list_all (\<lambda>r. Age r \<noteq> None) frame_scenario"
    by (simp add: frame_scenario_def)
  then show ?thesis
    using unclassified_dropped_after_limit [of stable_argsort stable_argsort frame_scenario]
    by (simp add: ranked_scenario)
qed

text \<open>
  C5 as stated puts the removal before the limiter. In \<open>frame_missing_age\<close> the record
  without an age is among the three rows the limiter keeps, and the total is 300; with the
  stage order of the spec it is 600. The four dates differ, so every sort by the key puts
  the rows in this order.
\<close>

theorem stage_order_counterexample:
  "map Age (limit_appearances stable_argsort (add_Division frame_missing_age)) =
     [None, Some 30, Some 30] \<and>
   map agg_Dots (process_novice stable_argsort stable_argsort frame_missing_age) = [300] \<and>
   map agg_Dots (process_novice_drop_first stable_argsort stable_argsort frame_missing_age) =
     [600]"
  by (simp add: limited_missing_age ranked_missing_age ranked_drop_first_missing_age)

subsection \<open>C6: records without an age\<close>

text \<open>
  C6. A record without an age gets no division. It adds to no total: replacing the Dots of
  every such record by anything at all leaves the result as it was. And it stands behind
  no row of the result: each row has the name, sex and division of some record of the
  input that has an age.
\<close>

theorem missing_age_excluded:
  assumes "is_argsort aD" and "is_argsort aS"
  shows "(\<forall>r\<in>set df. Age r = None \<longrightarrow> assign_division r = None) \<and>
    process_novice aD aS (map (\<lambda>r. if Age r = None then r\<lparr>Dots := g r\<rparr> else r) df) =
      process_novice aD aS df \<and>
    (\<forall>x\<in>set (process_novice aD aS df). \<exists>r\<in>set df.
        Age r \<noteq> None \<and> Name r = agg_Name x \<and> Sex r = Some (agg_Sex x) \<and>
        assign_division r = Some (agg_Division x))"
proof (intro conjI ballI impI)
  fix r :: row assume "Age r = None"
  then show "assign_division r = None" by (simp add: assign_division_None)
next
  let ?h = "\<lambda>d::drow. if Division d = None then d\<lparr>Dots := g (row.truncate d)\<rparr> else d"
  have "limit_appearances aD (map ?h (add_Division df)) = map ?h (limit_appearances aD (add_Division df))"
    by (rule limit_appearances_map [OF assms(1)]) simp_all
  moreover have "groupby_Dots_sum (map ?h K) = groupby_Dots_sum K" for K
    by (rule groupby_Dots_sum_map) (auto simp: group_key_def split: option.splits)
  ultimately show "process_novice aD aS (map (\<lambda>r. if Age r = None then r\<lparr>Dots := g r\<rparr> else r) df) =
      process_novice aD aS df"
    by (simp only: process_novice_unfold add_Division_map_Dots)
next
  fix x assume "x \<in> set (process_novice aD aS df)"
  then have "key_of x \<in> set (map key_of (process_novice aD aS df))" by simp
  then obtain d where d: "d \<in> set (limit_appearances aD (add_Division df))" "group_key d = Some (key_of x)"
    by (auto simp only: keys_process_novice [OF assms(2)] mem_Collect_eq)
  have "d \<in> set (sort_values_Date aD (add_Division df))"
    using d(1) set_keep_rows by (auto simp only: limit_appearances_keep)
  then have "d \<in># mset (sort_values_Date aD (add_Division df))" by simp
  then have "d \<in> set (add_Division df)"
    by (simp only: mset_sort_values_Date [OF assms(1)]) simp
  then obtain r where r: "r \<in> set df" "Name d = Name r" "Sex d = Sex r" "Division d = assign_division r"
    by (auto simp: add_Division_def)
  have "Name r = agg_Name x \<and> Sex r = Some (agg_Sex x) \<and> assign_division r = Some (agg_Division x)"
    using d(2) r by (simp add: group_key_Some key_of_def)
  moreover from this have "Age r \<noteq> None" by (auto simp: assign_division_None [symmetric])
  ultimately show "\<exists>r\<in>set df. Age r \<noteq> None \<and> Name r = agg_Name x \<and> Sex r = Some (agg_Sex x) \<and>
        assign_division r = Some (agg_Division x)"
    using r(1) by blast
qed

text \<open>
  In \<open>frame_missing_age\<close> the first record has no age. With its 500 replaced by 0 the
  result is the one of the frame itself (lemma \<open>ranked_missing_age\<close>): a total of 300.
\<close>

theorem missing_age_excluded_witness:
  "is_argsort (stable_argsort :: int list \<Rightarrow> nat list) \<and>
   is_argsort (stable_argsort :: rat list \<Rightarrow> nat list) \<and>
   assign_division (hd frame_missing_age) = None \<and>
   process_novice stable_argsort stable_argsort
     (map (\<lambda>r. if Age r = None then r\<lparr>Dots := Some 0\<rparr> else r) frame_missing_age) =
     [\<lparr>agg_Name = ''P'', agg_Sex = ''M'', agg_Division = ''Open Men'', agg_Dots = 300,
        Rank = 1\<rparr>]"
proof -
  have "assign_division (hd frame_missing_age) = None"
    by (simp add: frame_missing_age_def assign_division_def)
  then show ?thesis
    using missing_age_excluded [OF is_argsort_stable is_argsort_stable,
        of frame_missing_age "\<lambda>r. Some 0"]
    by (simp add: ranked_missing_age is_argsort_stable)
qed

subsection \<open>C7: records without a date\<close>

text \<open>
  C7. \<^verbatim>\<open>sort_values("Date")\<close> puts the rows without a date after all the rows with one. So
  for every name: as long as the limiter keeps one of the name's rows without a date, it
  has kept all of the name's rows with a date; the rows without a date are the first to go.
\<close>

theorem undated_dropped_first:
  assumes "is_argsort aD"
  shows "(\<exists>D. sort_values_Date aD df = D @ filter (\<lambda>r. Date r = None) df \<and>
              list_all (\<lambda>r. Date r \<noteq> None) D) \<and>
    (\<forall>n. list_ex (\<lambda>r. Name r = n \<and> Date r = None) (limit_appearances aD df) \<longrightarrow>
       mset (filter (\<lambda>r. Name r = n \<and> Date r \<noteq> None) (limit_appearances aD df)) =
       mset (filter (\<lambda>r. Name r = n \<and> Date r \<noteq> None) df))"
proof (intro conjI allI impI)
  let ?D = "dated_part aD df" and ?U = "filter (\<lambda>r. Date r = None) df"
  have dated: "Date r \<noteq> None" if "r \<in> set ?D" for r
    using dated_part_dated [OF assms that] .
  have "sort_values_Date aD df = ?D @ ?U \<and> list_all (\<lambda>r. Date r \<noteq> None) ?D"
    using dated by (simp add: sort_values_Date_split list_all_iff)
  then show "\<exists>D. sort_values_Date aD df = D @ ?U \<and> list_all (\<lambda>r. Date r \<noteq> None) D" by blast
  fix n
  let ?Dn = "filter (\<lambda>r. Name r = n) ?D" and ?Un = "filter (\<lambda>r. Name r = n) ?U"
  assume "list_ex (\<lambda>r. Name r = n \<and> Date r = None) (limit_appearances aD df)"
  then obtain r where r: "r \<in> set (limit_appearances aD df)" "Name r = n" "Date r = None"
    by (auto simp: list_ex_iff)
  have K: "filter (\<lambda>r. Name r = n) (limit_appearances aD df) = take 3 ?Dn @ take (3 - length ?Dn) ?Un"
    by (simp add: filter_limit_appearances sort_values_Date_split)
  have "r \<in> set (filter (\<lambda>r. Name r = n) (limit_appearances aD df))" using r by simp
  then have "r \<in> set (take 3 ?Dn) \<or> r \<in> set (take (3 - length ?Dn) ?Un)"
    by (simp only: K set_append Un_iff)
  moreover have "r \<notin> set (take 3 ?Dn)"
  proof
    assume "r \<in> set (take 3 ?Dn)"
    then have "r \<in> set ?Dn" by (rule in_set_takeD)
    then have "r \<in> set ?D" by simp
    then show False using dated r(3) by blast
  qed
  ultimately have "take (3 - length ?Dn) ?Un \<noteq> []" by auto
  then have short: "length ?Dn < 3" by (cases "length ?Dn < 3") auto
  have "filter (\<lambda>r. Name r = n \<and> Date r \<noteq> None) (limit_appearances aD df) =
        filter (\<lambda>r. Date r \<noteq> None) (filter (\<lambda>r. Name r = n) (limit_appearances aD df))"
    by (simp add: conj_commute)
  also have "\<dots> = filter (\<lambda>r. Date r \<noteq> None) ?Dn @ filter (\<lambda>r. Date r \<noteq> None) (take (3 - length ?Dn) ?Un)"
    using short by (simp only: K) simp
  also have "filter (\<lambda>r. Date r \<noteq> None) ?Dn = ?Dn"
    using dated by (intro filter_True ballI) auto
  also have "filter (\<lambda>r. Date r \<noteq> None) (take (3 - length ?Dn) ?Un) = []"
    by (auto simp: filter_empty_conv dest: in_set_takeD)
  finally have "mset (filter (\<lambda>r. Name r = n \<and> Date r \<noteq> None) (limit_appearances aD df)) =
      mset (filter (\<lambda>r. Name r = n) ?D)" by simp
  also have "\<dots> = mset (filter (\<lambda>r. Name r = n) (filter (\<lambda>r. Date r \<noteq> None) df))"
    by (simp only: mset_filter mset_dated_part [OF assms])
  also have "\<dots> = mset (filter (\<lambda>r. Name r = n \<and> Date r \<noteq> None) df)"
    by (simp add: conj_commute)
  finally show "mset (filter (\<lambda>r. Name r = n \<and> Date r \<noteq> None) (limit_appearances aD df)) =
       mset (filter (\<lambda>r. Name r = n \<and> Date r \<noteq> None) df)" .
qed

text \<open>
  Q has two dated and two undated appearances: both dated ones and one undated one are
  kept.
\<close>

theorem undated_dropped_first_witness:
  "is_argsort (stable_argsort :: int list \<Rightarrow> nat list) \<and>
   map Date (limit_appearances stable_argsort frame_undated) = [Some 1, Some 2, None] \<and>
   list_ex (\<lambda>r. Name r = ''Q'' \<and> Date r = None) (limit_appearances stable_argsort frame_undated) \<and>
   mset (filter (\<lambda>r. Name r = ''Q'' \<and> Date r \<noteq> None)
          (limit_appearances stable_argsort frame_undated)) =
   mset (filter (\<lambda>r. Name r = ''Q'' \<and> Date r \<noteq> None) frame_undated)"
proof -
  have kept: "list_ex (\<lambda>r. Name r = ''Q'' \<and> Date r = None)
      (limit_appearances stable_argsort frame_undated)"
    by (simp add: limited_undated_raw)
  have "mset (filter (\<lambda>r. Name r = ''Q'' \<and> Date r \<noteq> None)
          (limit_appearances stable_argsort frame_undated)) =
        mset (filter (\<lambda>r. Name r = ''Q'' \<and> Date r \<noteq> None) frame_undated)"
    using undated_dropped_first [OF is_argsort_stable, of frame_undated] kept by blast
  moreover have "map Date (limit_appearances stable_argsort frame_undated) =
      [Some 1, Some 2, None]"
    by (simp add: limited_undated_raw)
  ultimately show ?thesis using kept is_argsort_stable by blast
qed

subsection \<open>C8: the limiter on a frame already within the cap\<close>

text \<open>
  C8. When every name of the frame has at most three rows, the limiter drops nothing: its
  result is the frame sorted by date, the same records. Run on its own result, the limiter
  returns the same records again.
\<close>

theorem limiter_idempotent:
  assumes "is_argsort aD"
  shows "(list_all (\<lambda>r. length (filter (\<lambda>q. Name q = Name r) df) \<le> 3) df \<longrightarrow>
            limit_appearances aD df = sort_values_Date aD df \<and>
            mset (limit_appearances aD df) = mset df) \<and>
         mset (limit_appearances aD (limit_appearances aD df)) = mset (limit_appearances aD df)"
proof -
  have capped: "limit_appearances aD xs = sort_values_Date aD xs \<and> mset (limit_appearances aD xs) = mset xs"
    if all: "\<And>n. length (filter (\<lambda>q. Name q = n) xs) \<le> 3" for xs :: "'a row_scheme list"
  proof -
    have "keep_rows [] (sort_values_Date aD xs) = sort_values_Date aD xs"
      by (rule keep_rows_all) (simp add: length_filter_Name_sort [OF assms] all)
    then show ?thesis
      by (simp add: limit_appearances_keep mset_sort_values_Date [OF assms])
  qed
  have names: "length (filter (\<lambda>q. Name q = n) xs) \<le> 3"
    if "list_all (\<lambda>r. length (filter (\<lambda>q. Name q = Name r) xs) \<le> 3) xs" for xs :: "'a row_scheme list" and n
  proof (cases "n \<in> Name ` set xs")
    case True
    then show ?thesis using that by (auto simp: list_all_iff)
  next
    case False
    then have "filter (\<lambda>q. Name q = n) xs = []" by (auto simp: filter_empty_conv)
    then show ?thesis by simp
  qed
  have 1: "list_all (\<lambda>r. length (filter (\<lambda>q. Name q = Name r) df) \<le> 3) df \<longrightarrow>
            limit_appearances aD df = sort_values_Date aD df \<and>
            mset (limit_appearances aD df) = mset df"
    using capped [of df] names [of df] by blast
  have "length (filter (\<lambda>q. Name q = n) (limit_appearances aD df)) \<le> 3" for n
    by (simp add: filter_limit_appearances)
  then have 2: "mset (limit_appearances aD (limit_appearances aD df)) = mset (limit_appearances aD df)"
    using capped [of "limit_appearances aD df"] by blast
  show ?thesis using 1 2 by blast
qed

text \<open>
  The three names of \<open>frame_ties\<close> have one row each; and the limiter run twice on
  \<open>frame_undated\<close>, whose one name has four rows.
\<close>

theorem limiter_idempotent_witness:
  "is_argsort (stable_argsort :: int list \<Rightarrow> nat list) \<and>
   list_all (\<lambda>r. length (filter (\<lambda>q. Name q = Name r) frame_ties) \<le> 3) frame_ties \<and>
   mset (limit_appearances stable_argsort frame_ties) = mset frame_ties \<and>
   mset (limit_appearances stable_argsort (limit_appearances stable_argsort frame_undated)) =
     mset (limit_appearances stable_argsort frame_undated)"
proof -
  have few: "list_all (\<lambda>r. length (filter (\<lambda>q. Name q = Name r) frame_ties) \<le> 3) frame_ties"
    by (simp add: frame_ties_def)
  have "mset (limit_appearances stable_argsort frame_ties) = mset frame_ties"
    using limiter_idempotent [OF is_argsort_stable, of frame_ties] few by blast
  moreover have "mset (limit_appearances stable_argsort
        (limit_appearances stable_argsort frame_undated)) =
      mset (limit_appearances stable_argsort frame_undated)"
    using limiter_idempotent [OF is_argsort_stable, of frame_undated] by blast
  ultimately show ?thesis using few is_argsort_stable by blast
qed

subsection \<open>C9: the order of rows with equal totals\<close>

text \<open>
  C9 is left open. The source sorts the rows of \<^verbatim>\<open>agg\<close> by Dots alone, with pandas'
  default sort and no second key, so the order of rows with equal totals is the order that
  sort gives to equal keys. \<open>is_argsort\<close> says nothing about that order. The aggregation
  hands its rows over in ascending order of name, sex and division (lemma
  \<open>sorted_keys_groupby\<close>), and with \<open>stable_argsort\<close> the tied rows of the second
  scenario stay in that order (lemma \<open>ordered_ties\<close>); a sort that does not keep equal
  keys in place need not leave them so. What the sort of a given numpy build does with
  equal keys is not in the source, and the statement can neither be proved nor refuted
  here.
\<close>

subsection \<open>C10: one cap per name\<close>

text \<open>
  C10. The limiter looks at the name only. Of all the rows of a name it keeps the first
  three in date order, whatever their sex and division, so it keeps three of them or all
  when there are fewer. The result has one row for each name, sex and division found
  together on a kept row, and no two rows for the same three. The rows of the result that
  bear one name draw on at most three records between them.
\<close>

theorem cap_keyed_by_name:
  assumes "is_argsort aD" and "is_argsort aS"
  shows "mset (sort_values_Date aD (add_Division df)) = mset (add_Division df) \<and>
    sorted_wrt (\<lambda>x y. date_le (Date x) (Date y)) (sort_values_Date aD (add_Division df)) \<and>
    (\<forall>n. filter (\<lambda>r. Name r = n) (limit_appearances aD (add_Division df)) =
              take 3 (filter (\<lambda>r. Name r = n) (sort_values_Date aD (add_Division df)))) \<and>
    (\<forall>n. length (filter (\<lambda>r. Name r = n) (limit_appearances aD (add_Division df))) =
              min 3 (length (filter (\<lambda>r. Name r = n) df))) \<and>
    distinct (map key_of (process_novice aD aS df)) \<and>
    set (map key_of (process_novice aD aS df)) =
      {(n, s, d). \<exists>r\<in>set (limit_appearances aD (add_Division df)).
                     Name r = n \<and> Sex r = Some s \<and> Division r = Some d} \<and>
    (\<forall>n. sum_list (map (\<lambda>a. length (filter (\<lambda>r. group_key r = Some (key_of a))
                                        (limit_appearances aD (add_Division df))))
                        (filter (\<lambda>a. agg_Name a = n) (process_novice aD aS df))) \<le> 3)"
proof (intro conjI allI)
  let ?S = "sort_values_Date aD (add_Division df)"
  let ?K = "limit_appearances aD (add_Division df)"
  let ?out = "process_novice aD aS df"
  show "mset ?S = mset (add_Division df)" by (rule mset_sort_values_Date [OF assms(1)])
  show "sorted_wrt (\<lambda>x y. date_le (Date x) (Date y)) ?S"
    by (rule sorted_sort_values_Date [OF assms(1)])
  show take3: "filter (\<lambda>r. Name r = n) ?K = take 3 (filter (\<lambda>r. Name r = n) ?S)" for n
    by (rule filter_limit_appearances)
  show len: "length (filter (\<lambda>r. Name r = n) ?K) = min 3 (length (filter (\<lambda>r. Name r = n) df))" for n
  proof -
    have "length (filter (\<lambda>r. Name r = n) (add_Division df)) = length (filter (\<lambda>r. Name r = n) df)"
      by (simp add: add_Division_def filter_map comp_def)
    then show ?thesis
      by (simp add: take3 length_filter_Name_sort [OF assms(1)] min.commute)
  qed
  show dist: "distinct (map key_of ?out)" by (rule distinct_keys_process_novice [OF assms(2)])
  show "set (map key_of ?out) =
      {(n, s, d). \<exists>r\<in>set ?K. Name r = n \<and> Sex r = Some s \<and> Division r = Some d}"
    by (simp only: keys_process_novice [OF assms(2)]) (auto simp: group_key_Some)
  fix n
  let ?rows = "filter (\<lambda>a. agg_Name a = n) ?out"
  have d: "distinct (map key_of ?rows)" using dist by (rule distinct_map_filter)
  have "sum_list (map (\<lambda>a. length (filter (\<lambda>r. group_key r = Some (key_of a)) ?K)) ?rows) =
        sum_list (map (\<lambda>k. length (filter (\<lambda>r. group_key r = Some k) ?K)) (map key_of ?rows))"
    by (simp add: comp_def)
  also have "\<dots> = length (filter (\<lambda>r. \<exists>k\<in>set (map key_of ?rows). group_key r = Some k) ?K)"
    using d by (rule sum_group_sizes)
  also have "\<dots> \<le> length (filter (\<lambda>r. Name r = n) ?K)"
    by (rule length_filter_mono) (auto simp: group_key_Some key_of_def)
  also have "\<dots> \<le> 3" by (simp add: len)
  finally show "sum_list (map (\<lambda>a. length (filter (\<lambda>r. group_key r = Some (key_of a)) ?K)) ?rows) \<le> 3" .
qed

text \<open>
  R is a Junior at the first appearance and Open afterwards: two rows, made of one and two
  records, and the fourth appearance is dropped.
\<close>

theorem cap_keyed_by_name_witness:
  "is_argsort (stable_argsort :: int list \<Rightarrow> nat list) \<and>
   is_argsort (stable_argsort :: rat list \<Rightarrow> nat list) \<and>
   process_novice stable_argsort stable_argsort frame_two_divisions =
     [\<lparr>agg_Name = ''R'', agg_Sex = ''M'', agg_Division = ''Open Men'', agg_Dots = 500,
        Rank = 1\<rparr>,
      \<lparr>agg_Name = ''R'', agg_Sex = ''M'', agg_Division = ''Junior Men'', agg_Dots = 100,
        Rank = 1\<rparr>] \<and>
   length (filter (\<lambda>r. Name r = ''R'')
     (limit_appearances stable_argsort (add_Division frame_two_divisions))) = 3 \<and>
   distinct (map key_of (process_novice stable_argsort stable_argsort frame_two_divisions))"
proof -
  note cap = cap_keyed_by_name [OF is_argsort_stable is_argsort_stable, of frame_two_divisions]
  have "length (filter (\<lambda>r. Name r = ''R'')
      (limit_appearances stable_argsort (add_Division frame_two_divisions))) =
      min 3 (length (filter (\<lambda>r. Name r = ''R'') frame_two_divisions))"
    using cap by blast
  then have "length (filter (\<lambda>r. Name r = ''R'')
      (limit_appearances stable_argsort (add_Division frame_two_divisions))) = 3"
    by (simp add: frame_two_divisions_def)
  moreover have "distinct (map key_of
      (process_novice stable_argsort stable_argsort frame_two_divisions))"
    using cap by blast
  ultimately show ?thesis
    by (simp add: is_argsort_stable ranked_two_divisions)
qed

end
